theory Spec2Isabelle
  imports Complex_Main "HOL-Library.Word"
begin

section \<open>JavaScript data used by the TTS services\<close>

text \<open>
  A JavaScript string is a sequence of 16-bit code units, and \<open>s.length\<close> counts them.
  String literals of the source are ASCII; \<open>js\<close> turns an Isabelle literal into the
  code units it stands for. An optional string (a property that may be \<open>undefined\<close> or
  \<open>null\<close>, such as a user's API key or an environment variable) is a
  \<open>jsstring option\<close>; the empty string is falsy, as \<open>undefined\<close> is.
\<close>

type_synonym unit16 = "16 word"
type_synonym jsstring = "unit16 list"

definition js :: "string \<Rightarrow> jsstring" where
  "js s = map of_char s"

fun truthy :: "jsstring option \<Rightarrow> bool" where
  "truthy None = False"
| "truthy (Some s) = (s \<noteq> [])"

text \<open>\<open>a || b\<close> on optional strings.\<close>

definition or_else :: "jsstring option \<Rightarrow> jsstring option \<Rightarrow> jsstring option" where
  "or_else a b = (if truthy a then a else b)"

text \<open>\<open>a || 'literal'\<close>: the literal is a non-empty string.\<close>

definition or_string :: "jsstring option \<Rightarrow> jsstring \<Rightarrow> jsstring" where
  "or_string a d = (case a of None \<Rightarrow> d | Some s \<Rightarrow> if s = [] then d else s)"

text \<open>
  The test \<open>if (apiKey)\<close>: \<open>given k\<close> is the key when it is truthy, and \<open>None\<close>
  when it is \<open>undefined\<close> or empty.
\<close>

fun given :: "jsstring option \<Rightarrow> jsstring option" where
  "given None = None"
| "given (Some s) = (if s = [] then None else Some s)"

text \<open>
  Numbers. \<open>Fin r\<close> stands for the finite double of value \<open>r\<close>; arithmetic on finite
  values is taken exactly (rounding and overflow to an infinity are not modelled), and
  \<open>NaN\<close> propagates through \<open>*\<close>, \<open>Math.min\<close> and \<open>Math.max\<close> as in JavaScript.
\<close>

datatype jsnumber = NaN | Fin real

fun times_number :: "jsnumber \<Rightarrow> jsnumber \<Rightarrow> jsnumber" where
  "times_number (Fin a) (Fin b) = Fin (a * b)"
| "times_number _ _ = NaN"

fun Math_min :: "jsnumber \<Rightarrow> jsnumber \<Rightarrow> jsnumber" where
  "Math_min (Fin a) (Fin b) = Fin (min a b)"
| "Math_min _ _ = NaN"

fun Math_max :: "jsnumber \<Rightarrow> jsnumber \<Rightarrow> jsnumber" where
  "Math_max (Fin a) (Fin b) = Fin (max a b)"
| "Math_max _ _ = NaN"

text \<open>
  What reading a property of an object literal of numbers can give: a number, \<open>undefined\<close>,
  or an object (a function or \<open>Object.prototype\<close> itself) when the name is one the
  literal inherits from \<open>Object.prototype\<close>.
\<close>

datatype jsvalue = JUndefined | JNumber jsnumber | JObject

fun ToBoolean :: "jsvalue \<Rightarrow> bool" where
  "ToBoolean JUndefined = False"
| "ToBoolean (JNumber NaN) = False"
| "ToBoolean (JNumber (Fin r)) = (r \<noteq> 0)"
| "ToBoolean JObject = True"

fun ToNumber :: "jsvalue \<Rightarrow> jsnumber" where
  "ToNumber JUndefined = NaN"
| "ToNumber (JNumber n) = n"
| "ToNumber JObject = NaN"

text \<open>\<open>a || b\<close> on values.\<close>

definition or_value :: "jsvalue \<Rightarrow> jsvalue \<Rightarrow> jsvalue" where
  "or_value a b = (if ToBoolean a then a else b)"

text \<open>The property names every object literal inherits from \<open>Object.prototype\<close>.\<close>

definition Object_prototype :: "jsstring list" where
  "Object_prototype = map js
     [''constructor'', ''toString'', ''toLocaleString'', ''valueOf'', ''hasOwnProperty'',
      ''isPrototypeOf'', ''propertyIsEnumerable'', ''__proto__'', ''__defineGetter__'',
      ''__defineSetter__'', ''__lookupGetter__'', ''__lookupSetter__'']"

text \<open>\<open>obj[k]\<close> for an object literal \<open>obj\<close> whose own properties are numbers.\<close>

definition get_property :: "(jsstring \<times> real) list \<Rightarrow> jsstring \<Rightarrow> jsvalue" where
  "get_property obj k =
     (case map_of obj k of
        Some v \<Rightarrow> JNumber (Fin v)
      | None \<Rightarrow> if k \<in> set Object_prototype then JObject else JUndefined)"

section \<open>The Groq client (GroqTTSService)\<close>

subsection \<open>Speed\<close>

definition characterSpeeds :: "(jsstring \<times> real) list" where
  "characterSpeeds =
     [(js ''cypher'', 0.75), (js ''venom'', 0.9), (js ''razor'', 1.1), (js ''silk'', 1.0)]"

definition styleModifiers :: "(jsstring \<times> real) list" where
  "styleModifiers =
     [(js ''aggressive'', 1.2), (js ''confident'', 1.0), (js ''smooth'', 0.95),
      (js ''intense'', 1.15), (js ''playful'', 1.1)]"

text \<open>
  \<open>calculateDynamicSpeed(characterId, voiceStyle?, speedMultiplier = 1.0)\<close>: an absent
  third argument is \<open>None\<close> and takes the default.
\<close>

definition calculateDynamicSpeed ::
  "jsstring \<Rightarrow> jsstring option \<Rightarrow> jsnumber option \<Rightarrow> jsnumber" where
  "calculateDynamicSpeed characterId voiceStyle speedMultiplier =
     (let multiplier = (case speedMultiplier of None \<Rightarrow> Fin 1.0 | Some m \<Rightarrow> m);
          baseSpeed = or_value (get_property characterSpeeds characterId) (JNumber (Fin 1.0));
          styleModifier =
            or_value (get_property styleModifiers (or_string voiceStyle (js ''confident'')))
              (JNumber (Fin 1.0));
          finalSpeed =
            times_number (times_number (ToNumber baseSpeed) (ToNumber styleModifier)) multiplier
      in Math_max (Fin 0.5) (Math_min (Fin 2.0) finalSpeed))"

subsection \<open>Text sent to the vendor\<close>

text \<open>
  The regular expressions of the source work on code units. \<open>.\<close> matches every code
  unit but the four line terminators; \<open>\s\<close> and \<open>trim\<close> use the same set of
  white space (which contains the line terminators).
\<close>

definition isLineTerminator :: "unit16 \<Rightarrow> bool" where
  "isLineTerminator c \<longleftrightarrow> c = 0x0A \<or> c = 0x0D \<or> c = 0x2028 \<or> c = 0x2029"

definition isWhiteSpace :: "unit16 \<Rightarrow> bool" where
  "isWhiteSpace c \<longleftrightarrow>
     c = 0x09 \<or> c = 0x0A \<or> c = 0x0B \<or> c = 0x0C \<or> c = 0x0D \<or> c = 0x20 \<or> c = 0xA0 \<or>
     c = 0x1680 \<or> (0x2000 \<le> c \<and> c \<le> 0x200A) \<or> c = 0x2028 \<or> c = 0x2029 \<or>
     c = 0x202F \<or> c = 0x205F \<or> c = 0x3000 \<or> c = 0xFEFF"

text \<open>\<open>s.replace(/c/g, r)\<close> for a single code unit \<open>c\<close>.\<close>

definition replace_unit :: "unit16 \<Rightarrow> jsstring \<Rightarrow> jsstring \<Rightarrow> jsstring" where
  "replace_unit c r s = concat (map (\<lambda>x. if x = c then r else [x]) s)"

text \<open>
  \<open>s.replace(/\<open>op\<close>.*?\<open>cl\<close>/g, '')\<close>, the lazy match between two delimiters:
  at an opening delimiter the match runs to the first closing delimiter, provided no line
  terminator comes before it; \<open>find_close\<close> gives what follows that closing
  delimiter. Where there is no match the opening delimiter stays and the scan moves on by
  one code unit.
\<close>

fun find_close :: "unit16 \<Rightarrow> jsstring \<Rightarrow> jsstring option" where
  "find_close cl [] = None"
| "find_close cl (x # xs) =
     (if x = cl then Some xs else if isLineTerminator x then None else find_close cl xs)"

lemma find_close_length: "find_close cl xs = Some rest \<Longrightarrow> length rest < length xs"
  by (induction xs) (auto split: if_splits)

function remove_delimited :: "unit16 \<Rightarrow> unit16 \<Rightarrow> jsstring \<Rightarrow> jsstring" where
  "remove_delimited op cl [] = []"
| "remove_delimited op cl (x # xs) =
     (if x = op then
        (case find_close cl xs of
           Some rest \<Rightarrow> remove_delimited op cl rest
         | None \<Rightarrow> x # remove_delimited op cl xs)
      else x # remove_delimited op cl xs)"
  by pat_completeness auto
termination
  by (relation "measure (\<lambda>(op, cl, s). length s)") (auto dest: find_close_length)

text \<open>\<open>s.replace(/\s+/g, ' ')\<close>: every maximal run of white space becomes one space.\<close>

function collapse_whitespace :: "jsstring \<Rightarrow> jsstring" where
  "collapse_whitespace [] = []"
| "collapse_whitespace (x # xs) =
     (if isWhiteSpace x then 0x20 # collapse_whitespace (dropWhile isWhiteSpace xs)
      else x # collapse_whitespace xs)"
  by pat_completeness auto
termination
  by (relation "measure length") (auto simp: length_dropWhile_le less_Suc_eq_le)

definition trim :: "jsstring \<Rightarrow> jsstring" where
  "trim s = rev (dropWhile isWhiteSpace (rev (dropWhile isWhiteSpace s)))"

definition applyRobotVoiceEffects :: "jsstring \<Rightarrow> jsstring \<Rightarrow> jsstring" where
  "applyRobotVoiceEffects txt characterId =
     (if characterId = js ''cypher'' then
        (let robotText1 = replace_unit (of_char CHR ''.'') (js ''. [pause]'') txt;
             robotText2 = replace_unit (of_char CHR ''!'') (js ''. [emphasis]'') robotText1;
             robotText3 = replace_unit (of_char CHR ''?'') (js ''. [query]'') robotText2
         in js ''[processing] '' @ robotText3 @ js '' [systems_online]'')
      else txt)"

text \<open>The \<open>cleanText\<close> of \<open>generateTTS\<close>: what is sent, and what the duration is estimated from.\<close>

definition cleanText :: "jsstring \<Rightarrow> jsstring \<Rightarrow> jsstring" where
  "cleanText txt characterId =
     (let processedText = applyRobotVoiceEffects txt characterId in
      if characterId = js ''cypher'' then
        trim (collapse_whitespace
          (remove_delimited (of_char CHR ''*'') (of_char CHR ''*'') processedText))
      else
        trim (collapse_whitespace
          (remove_delimited (of_char CHR ''*'') (of_char CHR ''*'')
            (remove_delimited (of_char CHR ''['') (of_char CHR '']'') processedText))))"

subsection \<open>Synthesis and the connection test\<close>

datatype error = Error jsstring

fun message :: "error \<Rightarrow> jsstring" where
  "message (Error m) = m"

record tts_result =
  audioUrl :: jsstring
  duration :: nat

text \<open>The options object a client's \<open>generateTTS\<close> takes.\<close>

record client_options =
  voiceStyle :: "jsstring option"
  characterName :: "jsstring option"
  gender :: "jsstring option"
  speedMultiplier :: "jsnumber option"

text \<open>
  The request handed to the vendor's SDK (\<open>groq.audio.speech.create\<close>). The model and
  response format are constants; the voice (\<open>getVoiceForCharacter\<close>, which draws on
  \<open>Math.random\<close>) fills one more field of the request and decides nothing else, so
  the record carries the text and the speed. The connection test sends no speed.
\<close>

record groq_request =
  input :: jsstring
  speed :: "jsnumber option"

text \<open>
  The vendors answer from outside the program. An answer is either a failure (the request,
  reading its body or writing the audio file throws) or the audio, written as the base64
  text the client builds the data URL from; the audio is empty exactly when that text is.
  Answers may change from one call to the next: each oracle takes the number of calls made
  so far as its first argument.
\<close>

type_synonym groq_sdk = "nat \<Rightarrow> jsstring \<Rightarrow> groq_request \<Rightarrow> error + jsstring"

definition GroqTTSService_generateTTS ::
  "groq_sdk \<Rightarrow> nat \<Rightarrow> jsstring \<Rightarrow> jsstring \<Rightarrow> jsstring \<Rightarrow> client_options \<Rightarrow> error + tts_result" where
  "GroqTTSService_generateTTS sdk now apiKey txt characterId options =
     (let clean = cleanText txt characterId;
          ttsOptions = \<lparr>input = clean,
            speed = Some (calculateDynamicSpeed characterId (voiceStyle options) (speedMultiplier options))\<rparr>
      in case sdk now apiKey ttsOptions of
           Inr base64Audio \<Rightarrow>
             Inr \<lparr>audioUrl = js ''data:audio/wav;base64,'' @ base64Audio,
                  duration = length clean div 15\<rparr>
         | Inl e \<Rightarrow> Inl (Error (js ''Groq TTS generation failed: '' @ message e)))"

definition GroqTTSService_testConnection :: "groq_sdk \<Rightarrow> nat \<Rightarrow> jsstring \<Rightarrow> bool" where
  "GroqTTSService_testConnection sdk now apiKey =
     (case sdk now apiKey \<lparr>input = js ''Test connection'', speed = None\<rparr> of
        Inr buffer \<Rightarrow> length buffer > 0
      | Inl e \<Rightarrow> False)"

section \<open>The manager's surroundings\<close>

text \<open>
  A user record, as the manager reads it: the preferred service and one optional API key
  per vendor.
\<close>

record user =
  preferredTtsService :: "jsstring option"
  openaiApiKey :: "jsstring option"
  groqApiKey :: "jsstring option"
  elevenlabsApiKey :: "jsstring option"
  myshellApiKey :: "jsstring option"

text \<open>
  The manager's \<open>TTSGenerationOptions\<close>: the optional fields of the client options,
  and \<open>characterId\<close>.
\<close>

record TTSGenerationOptions = client_options +
  characterId :: jsstring

record process_env =
  MYSHELL_API_KEY :: "jsstring option"
  ELEVENLABS_API_KEY :: "jsstring option"
  GROQ_API_KEY :: "jsstring option"
  OPENAI_API_KEY :: "jsstring option"

datatype vendor = OpenAI | Groq | ElevenLabs | MyShell

datatype engine = Bark | Typecast

text \<open>
  A service object. \<open>ref\<close> is its identity: two objects are the same object exactly when
  their references are equal. The other fields are what the factory was given.
\<close>

record provider_instance =
  ref :: nat
  service :: vendor
  apiKey :: jsstring
  voiceCloning :: bool

text \<open>
  What the manager does not decide is a parameter of every function below, and every
  property is proved for all its values:
  \<^item> \<open>getUser\<close> is \<open>storage.getUser\<close>, which is not in the sources: the lookup rejects,
    or it resolves to a user record or to nothing (\<open>User | undefined\<close>);
  \<^item> \<open>env\<close> is \<open>process.env\<close>;
  \<^item> \<open>groq_speech\<close> is the SDK of the Groq client, which is in the sources;
  \<^item> \<open>client_generateTTS\<close> and \<open>client_testConnection\<close> are the clients of OpenAI,
    ElevenLabs and MyShell, and \<open>engine_generate\<close> the two engines of the early system
    chain (\<open>barkTTS.generateAudio\<close>, \<open>typecastService.generateSpeech\<close>), none of them
    in the sources: a call throws or returns a result.
\<close>

record world =
  getUser :: "jsstring \<Rightarrow> error + user option"
  env :: process_env
  groq_speech :: groq_sdk
  client_generateTTS ::
    "nat \<Rightarrow> provider_instance \<Rightarrow> jsstring \<Rightarrow> jsstring \<Rightarrow> client_options \<Rightarrow> error + tts_result"
  client_testConnection :: "nat \<Rightarrow> provider_instance \<Rightarrow> error + bool"
  engine_generate :: "nat \<Rightarrow> engine \<Rightarrow> jsstring \<Rightarrow> jsstring \<Rightarrow> error + tts_result"

section \<open>UserTTSManager\<close>

subsection \<open>State: the four instance caches\<close>

datatype call = Synthesize vendor jsstring | TestConnection vendor jsstring | SystemEngine engine

text \<open>
  The four \<open>Map\<close>s of the manager, the number of service objects constructed so far
  (the next fresh reference), and the calls made to clients so far, oldest first, each
  with the vendor and the API key of the instance called.
\<close>

record manager =
  openaiInstances :: "jsstring \<rightharpoonup> provider_instance"
  groqInstances :: "jsstring \<rightharpoonup> provider_instance"
  elevenlabsInstances :: "jsstring \<rightharpoonup> provider_instance"
  myshellInstances :: "jsstring \<rightharpoonup> provider_instance"
  allocated :: nat
  calls :: "call list"

definition new_manager :: manager where
  "new_manager = \<lparr>openaiInstances = Map.empty, groqInstances = Map.empty,
     elevenlabsInstances = Map.empty, myshellInstances = Map.empty, allocated = 0, calls = []\<rparr>"

text \<open>
  Modelled from the spec: the factories \<open>createOpenAITTS\<close>, \<open>createElevenLabsTTS\<close> and
  \<open>createMyShellTTS\<close> are not in the sources. A factory constructs a client for the
  key it is given, as \<open>createGroqTTS\<close>, which is in the sources, does with
  \<open>new GroqTTSService({ apiKey })\<close>: each call yields a new object, here the next
  reference not yet used. (The directory the Groq constructor creates is outside the model.)
\<close>

definition construct :: "vendor \<Rightarrow> jsstring \<Rightarrow> bool \<Rightarrow> manager \<Rightarrow> provider_instance \<times> manager" where
  "construct v k cloning st =
     (\<lparr>ref = allocated st, service = v, apiKey = k, voiceCloning = cloning\<rparr>,
      st\<lparr>allocated := Suc (allocated st)\<rparr>)"

definition createOpenAITTS :: "jsstring \<Rightarrow> manager \<Rightarrow> provider_instance \<times> manager" where
  "createOpenAITTS k = construct OpenAI k False"

definition createGroqTTS :: "jsstring \<Rightarrow> manager \<Rightarrow> provider_instance \<times> manager" where
  "createGroqTTS k = construct Groq k False"

definition createElevenLabsTTS :: "jsstring \<Rightarrow> manager \<Rightarrow> provider_instance \<times> manager" where
  "createElevenLabsTTS k = construct ElevenLabs k False"

definition createMyShellTTS :: "jsstring \<Rightarrow> bool \<Rightarrow> manager \<Rightarrow> provider_instance \<times> manager" where
  "createMyShellTTS k cloning = construct MyShell k cloning"

definition getOpenAIInstance :: "jsstring \<Rightarrow> manager \<Rightarrow> provider_instance \<times> manager" where
  "getOpenAIInstance k st =
     (case openaiInstances st k of
        Some i \<Rightarrow> (i, st)
      | None \<Rightarrow>
          (let (i, st') = createOpenAITTS k st
           in (i, st'\<lparr>openaiInstances := (openaiInstances st')(k \<mapsto> i)\<rparr>)))"

definition getGroqInstance :: "jsstring \<Rightarrow> manager \<Rightarrow> provider_instance \<times> manager" where
  "getGroqInstance k st =
     (case groqInstances st k of
        Some i \<Rightarrow> (i, st)
      | None \<Rightarrow>
          (let (i, st') = createGroqTTS k st
           in (i, st'\<lparr>groqInstances := (groqInstances st')(k \<mapsto> i)\<rparr>)))"

definition getElevenLabsInstance :: "jsstring \<Rightarrow> manager \<Rightarrow> provider_instance \<times> manager" where
  "getElevenLabsInstance k st =
     (case elevenlabsInstances st k of
        Some i \<Rightarrow> (i, st)
      | None \<Rightarrow>
          (let (i, st') = createElevenLabsTTS k st
           in (i, st'\<lparr>elevenlabsInstances := (elevenlabsInstances st')(k \<mapsto> i)\<rparr>)))"

text \<open>The MyShell cache is keyed by the template string \<open>${apiKey}_${voiceCloning}\<close>.\<close>

definition myshell_key :: "jsstring \<Rightarrow> bool \<Rightarrow> jsstring" where
  "myshell_key k cloning = k @ js ''_'' @ (if cloning then js ''true'' else js ''false'')"

definition getMyShellInstance :: "jsstring \<Rightarrow> bool \<Rightarrow> manager \<Rightarrow> provider_instance \<times> manager" where
  "getMyShellInstance k cloning st =
     (let key = myshell_key k cloning in
      case myshellInstances st key of
        Some i \<Rightarrow> (i, st)
      | None \<Rightarrow>
          (let (i, st') = createMyShellTTS k cloning st
           in (i, st'\<lparr>myshellInstances := (myshellInstances st')(key \<mapsto> i)\<rparr>)))"

definition clearUserInstances :: "jsstring \<Rightarrow> manager \<Rightarrow> manager" where
  "clearUserInstances userId st =
     st\<lparr>openaiInstances := Map.empty, groqInstances := Map.empty,
        elevenlabsInstances := Map.empty, myshellInstances := Map.empty\<rparr>"

subsection \<open>Calling a client\<close>

text \<open>
  \<open>instance.generateTTS(text, characterId, options)\<close>: the call is recorded, and its
  answer is the Groq client's for a Groq instance and the oracle's for the others.
\<close>

definition instance_generateTTS ::
  "world \<Rightarrow> provider_instance \<Rightarrow> jsstring \<Rightarrow> jsstring \<Rightarrow> client_options \<Rightarrow> manager
     \<Rightarrow> (error + tts_result) \<times> manager" where
  "instance_generateTTS w i txt cid options st =
     (let now = length (calls st) in
      (if service i = Groq
       then GroqTTSService_generateTTS (groq_speech w) now (apiKey i) txt cid options
       else client_generateTTS w now i txt cid options,
       st\<lparr>calls := calls st @ [Synthesize (service i) (apiKey i)]\<rparr>))"

text \<open>
  \<open>instance.testConnection()\<close>. The Groq client catches every failure of its own and
  answers \<open>false\<close>; the other clients may throw.
\<close>

definition instance_testConnection ::
  "world \<Rightarrow> provider_instance \<Rightarrow> manager \<Rightarrow> (error + bool) \<times> manager" where
  "instance_testConnection w i st =
     (let now = length (calls st) in
      (if service i = Groq
       then Inr (GroqTTSService_testConnection (groq_speech w) now (apiKey i))
       else client_testConnection w now i,
       st\<lparr>calls := calls st @ [TestConnection (service i) (apiKey i)]\<rparr>))"

text \<open>The object literal every call site builds from the manager's options.\<close>

definition passed_options :: "TTSGenerationOptions \<Rightarrow> client_options" where
  "passed_options options =
     \<lparr>voiceStyle = voiceStyle options, characterName = characterName options,
      gender = gender options, speedMultiplier = speedMultiplier options\<rparr>"

text \<open>
  One block \<open>try { ... return await instance.generateTTS(...) } catch (error) { log }\<close>:
  \<open>Some r\<close> when the block returns \<open>r\<close> from the function, \<open>None\<close> when the call
  threw, the error was logged, and control leaves the block.
\<close>

type_synonym step = "manager \<Rightarrow> tts_result option \<times> manager"

definition attempt :: "(error + tts_result) \<times> manager \<Rightarrow> tts_result option \<times> manager" where
  "attempt outcome = (case outcome of (Inr r, st) \<Rightarrow> (Some r, st) | (Inl e, st) \<Rightarrow> (None, st))"

text \<open>Blocks in sequence: the first that returns ends the function.\<close>

fun first_return :: "step list \<Rightarrow> step" where
  "first_return [] st = (None, st)"
| "first_return (b # bs) st =
     (case b st of (Some r, st') \<Rightarrow> (Some r, st') | (None, st') \<Rightarrow> first_return bs st')"

definition useMyShell :: "world \<Rightarrow> jsstring \<Rightarrow> jsstring \<Rightarrow> TTSGenerationOptions \<Rightarrow> step" where
  "useMyShell w k txt options st =
     attempt (let (i, st1) = getMyShellInstance k True st
              in instance_generateTTS w i txt (characterId options) (passed_options options) st1)"

definition useOpenAI :: "world \<Rightarrow> jsstring \<Rightarrow> jsstring \<Rightarrow> TTSGenerationOptions \<Rightarrow> step" where
  "useOpenAI w k txt options st =
     attempt (let (i, st1) = getOpenAIInstance k st
              in instance_generateTTS w i txt (characterId options) (passed_options options) st1)"

definition useGroq :: "world \<Rightarrow> jsstring \<Rightarrow> jsstring \<Rightarrow> TTSGenerationOptions \<Rightarrow> step" where
  "useGroq w k txt options st =
     attempt (let (i, st1) = getGroqInstance k st
              in instance_generateTTS w i txt (characterId options) (passed_options options) st1)"

definition useElevenLabs :: "world \<Rightarrow> jsstring \<Rightarrow> jsstring \<Rightarrow> TTSGenerationOptions \<Rightarrow> step" where
  "useElevenLabs w k txt options st =
     attempt (let (i, st1) = getElevenLabsInstance k st
              in instance_generateTTS w i txt (characterId options) (passed_options options) st1)"

subsection \<open>The system fallback chain (later variant)\<close>

text \<open>
  The result when nothing produced audio. \<open>Math.floor(text.length / 15)\<close> is the integer
  quotient: a string's length is far below the range where a double stops being exact.
\<close>

definition emptyAudio :: "jsstring \<Rightarrow> tts_result" where
  "emptyAudio txt = \<lparr>audioUrl = [], duration = length txt div 15\<rparr>"

definition systemMyShell :: "world \<Rightarrow> jsstring \<Rightarrow> TTSGenerationOptions \<Rightarrow> step" where
  "systemMyShell w txt options st =
     (case given (MYSHELL_API_KEY (env w)) of
        Some k \<Rightarrow> useMyShell w k txt options st
      | None \<Rightarrow> (None, st))"

definition systemElevenLabs :: "world \<Rightarrow> jsstring \<Rightarrow> TTSGenerationOptions \<Rightarrow> step" where
  "systemElevenLabs w txt options st =
     (case given (ELEVENLABS_API_KEY (env w)) of
        Some k \<Rightarrow> useElevenLabs w k txt options st
      | None \<Rightarrow> (None, st))"

definition systemGroq :: "world \<Rightarrow> jsstring \<Rightarrow> TTSGenerationOptions \<Rightarrow> step" where
  "systemGroq w txt options st =
     (case given (GROQ_API_KEY (env w)) of
        Some k \<Rightarrow> useGroq w k txt options st
      | None \<Rightarrow> (None, st))"

definition systemOpenAI :: "world \<Rightarrow> jsstring \<Rightarrow> TTSGenerationOptions \<Rightarrow> step" where
  "systemOpenAI w txt options st =
     (case given (OPENAI_API_KEY (env w)) of
        Some k \<Rightarrow> useOpenAI w k txt options st
      | None \<Rightarrow> (None, st))"

definition useSystemTTS ::
  "world \<Rightarrow> jsstring \<Rightarrow> TTSGenerationOptions \<Rightarrow> manager \<Rightarrow> (error + tts_result) \<times> manager" where
  "useSystemTTS w txt options st =
     (case first_return
             [systemMyShell w txt options, systemElevenLabs w txt options,
              systemGroq w txt options, systemOpenAI w txt options] st of
        (Some r, st') \<Rightarrow> (Inr r, st')
      | (None, st') \<Rightarrow> (Inr (emptyAudio txt), st'))"

subsection \<open>generateTTS (later variant)\<close>

text \<open>The block that forces Groq for the character \<open>cypher\<close>.\<close>

definition forceCypherGroq :: "world \<Rightarrow> jsstring \<Rightarrow> user \<Rightarrow> TTSGenerationOptions \<Rightarrow> step" where
  "forceCypherGroq w txt u options st =
     (if characterId options = js ''cypher'' then
        (case given (or_else (groqApiKey u) (GROQ_API_KEY (env w))) of
           Some k \<Rightarrow> useGroq w k txt options st
         | None \<Rightarrow> (None, st))
      else (None, st))"

text \<open>The four blocks on the preferred service, in the order of the source.\<close>

definition preferMyShell ::
  "world \<Rightarrow> jsstring \<Rightarrow> user \<Rightarrow> jsstring \<Rightarrow> TTSGenerationOptions \<Rightarrow> step" where
  "preferMyShell w txt u preferredService options st =
     (if preferredService = js ''myshell'' then
        (case given (or_else (myshellApiKey u) (MYSHELL_API_KEY (env w))) of
           Some k \<Rightarrow> useMyShell w k txt options st
         | None \<Rightarrow> (None, st))
      else (None, st))"

definition preferOpenAI ::
  "world \<Rightarrow> jsstring \<Rightarrow> user \<Rightarrow> jsstring \<Rightarrow> TTSGenerationOptions \<Rightarrow> step" where
  "preferOpenAI w txt u preferredService options st =
     (if preferredService = js ''openai'' then
        (case given (openaiApiKey u) of
           Some k \<Rightarrow> useOpenAI w k txt options st
         | None \<Rightarrow> (None, st))
      else (None, st))"

definition preferGroq ::
  "world \<Rightarrow> jsstring \<Rightarrow> user \<Rightarrow> jsstring \<Rightarrow> TTSGenerationOptions \<Rightarrow> step" where
  "preferGroq w txt u preferredService options st =
     (if preferredService = js ''groq'' then
        (case given (or_else (groqApiKey u) (GROQ_API_KEY (env w))) of
           Some k \<Rightarrow> useGroq w k txt options st
         | None \<Rightarrow> (None, st))
      else (None, st))"

definition preferElevenLabs ::
  "world \<Rightarrow> jsstring \<Rightarrow> user \<Rightarrow> jsstring \<Rightarrow> TTSGenerationOptions \<Rightarrow> step" where
  "preferElevenLabs w txt u preferredService options st =
     (if preferredService = js ''elevenlabs'' then
        (case given (or_else (elevenlabsApiKey u) (ELEVENLABS_API_KEY (env w))) of
           Some k \<Rightarrow> useElevenLabs w k txt options st
         | None \<Rightarrow> (None, st))
      else (None, st))"

definition preferencePhase :: "world \<Rightarrow> jsstring \<Rightarrow> user \<Rightarrow> TTSGenerationOptions \<Rightarrow> step" where
  "preferencePhase w txt u options =
     (let preferredService = or_string (preferredTtsService u) (js ''myshell'') in
      first_return
        [preferMyShell w txt u preferredService options,
         preferOpenAI w txt u preferredService options,
         preferGroq w txt u preferredService options,
         preferElevenLabs w txt u preferredService options])"

text \<open>
  What follows the character block: the preference phase, then the system chain.
\<close>

definition afterOverride ::
  "world \<Rightarrow> jsstring \<Rightarrow> user \<Rightarrow> TTSGenerationOptions \<Rightarrow> manager \<Rightarrow> (error + tts_result) \<times> manager" where
  "afterOverride w txt u options st =
     (case preferencePhase w txt u options st of
        (Some r, st') \<Rightarrow> (Inr r, st')
      | (None, st') \<Rightarrow> useSystemTTS w txt options st')"

text \<open>
  The body of the outer \<open>try\<close>, which throws when the lookup of the user rejects and when
  the user is not found, and the function with its outer \<open>catch\<close>.
\<close>

definition generateTTS_try ::
  "world \<Rightarrow> jsstring \<Rightarrow> jsstring \<Rightarrow> TTSGenerationOptions \<Rightarrow> manager \<Rightarrow> (error + tts_result) \<times> manager" where
  "generateTTS_try w txt userId options st =
     (case getUser w userId of
        Inl e \<Rightarrow> (Inl e, st)
      | Inr None \<Rightarrow> (Inl (Error (js ''User not found'')), st)
      | Inr (Some u) \<Rightarrow>
          (case forceCypherGroq w txt u options st of
             (Some r, st') \<Rightarrow> (Inr r, st')
           | (None, st') \<Rightarrow> afterOverride w txt u options st'))"

definition generateTTS ::
  "world \<Rightarrow> jsstring \<Rightarrow> jsstring \<Rightarrow> TTSGenerationOptions \<Rightarrow> manager \<Rightarrow> (error + tts_result) \<times> manager" where
  "generateTTS w txt userId options st =
     (case generateTTS_try w txt userId options st of
        (Inr r, st') \<Rightarrow> (Inr r, st')
      | (Inl e, st') \<Rightarrow> (Inr (emptyAudio txt), st'))"

subsection \<open>testUserAPIKey (later variant)\<close>

text \<open>
  The user is looked up before the \<open>try\<close>, so a lookup that rejects is not caught. Inside
  the \<open>try\<close>, the first test that holds decides: the service name and a truthy stored key
  of the user for that service.
\<close>

definition no_options :: client_options where
  "no_options = \<lparr>voiceStyle = None, characterName = None, gender = None, speedMultiplier = None\<rparr>"

definition testOpenAI :: "world \<Rightarrow> jsstring \<Rightarrow> manager \<Rightarrow> (error + bool) \<times> manager" where
  "testOpenAI w k st =
     (let (i, st1) = getOpenAIInstance k st in
      case instance_generateTTS w i (js ''Test'') (js ''test'') no_options st1 of
        (Inr r, st2) \<Rightarrow> (Inr (length (audioUrl r) > 0), st2)
      | (Inl e, st2) \<Rightarrow> (Inl e, st2))"

definition testUserAPIKey_try ::
  "world \<Rightarrow> user \<Rightarrow> jsstring \<Rightarrow> manager \<Rightarrow> (error + bool) \<times> manager" where
  "testUserAPIKey_try w u service_name st =
     (case (if service_name = js ''openai'' then given (openaiApiKey u) else None) of
        Some k \<Rightarrow> testOpenAI w k st
      | None \<Rightarrow>
     (case (if service_name = js ''groq'' then given (groqApiKey u) else None) of
        Some k \<Rightarrow> (let (i, st1) = getGroqInstance k st in instance_testConnection w i st1)
      | None \<Rightarrow>
     (case (if service_name = js ''elevenlabs'' then given (elevenlabsApiKey u) else None) of
        Some k \<Rightarrow> (let (i, st1) = getElevenLabsInstance k st in instance_testConnection w i st1)
      | None \<Rightarrow>
     (case (if service_name = js ''myshell'' then given (myshellApiKey u) else None) of
        Some k \<Rightarrow> (let (i, st1) = getMyShellInstance k True st in instance_testConnection w i st1)
      | None \<Rightarrow> (Inr False, st)))))"

definition testUserAPIKey ::
  "world \<Rightarrow> jsstring \<Rightarrow> jsstring \<Rightarrow> manager \<Rightarrow> (error + bool) \<times> manager" where
  "testUserAPIKey w userId service_name st =
     (case getUser w userId of
        Inl e \<Rightarrow> (Inl e, st)
      | Inr None \<Rightarrow> (Inr False, st)
      | Inr (Some u) \<Rightarrow>
          (case testUserAPIKey_try w u service_name st of
             (Inr b, st') \<Rightarrow> (Inr b, st')
           | (Inl e, st') \<Rightarrow> (Inr False, st')))"

section \<open>UserTTSManager, early variant (server/services/user-tts-manager.ts)\<close>

text \<open>
  The early class has the OpenAI and Groq caches only, passes no speed multiplier, has no
  block for a reserved character, uses stored keys only, and falls back to two engines
  that need no key.
\<close>

definition passed_options_early :: "TTSGenerationOptions \<Rightarrow> client_options" where
  "passed_options_early options =
     \<lparr>voiceStyle = voiceStyle options, characterName = characterName options,
      gender = gender options, speedMultiplier = None\<rparr>"

definition engine_call ::
  "world \<Rightarrow> engine \<Rightarrow> jsstring \<Rightarrow> jsstring \<Rightarrow> manager \<Rightarrow> (error + tts_result) \<times> manager" where
  "engine_call w e txt cid st =
     (engine_generate w (length (calls st)) e txt cid, st\<lparr>calls := calls st @ [SystemEngine e]\<rparr>)"

definition useSystemTTS_early ::
  "world \<Rightarrow> jsstring \<Rightarrow> TTSGenerationOptions \<Rightarrow> manager \<Rightarrow> (error + tts_result) \<times> manager" where
  "useSystemTTS_early w txt options st =
     (case engine_call w Bark txt (characterId options) st of
        (Inr r, st1) \<Rightarrow> (Inr r, st1)
      | (Inl barkError, st1) \<Rightarrow>
          (case engine_call w Typecast txt (characterId options) st1 of
             (Inr r, st2) \<Rightarrow> (Inr r, st2)
           | (Inl typecastError, st2) \<Rightarrow> (Inr (emptyAudio txt), st2)))"

definition preferOpenAI_early ::
  "world \<Rightarrow> jsstring \<Rightarrow> user \<Rightarrow> jsstring \<Rightarrow> TTSGenerationOptions \<Rightarrow> step" where
  "preferOpenAI_early w txt u preferredService options st =
     (if preferredService = js ''openai'' then
        (case given (openaiApiKey u) of
           Some k \<Rightarrow>
             attempt (let (i, st1) = getOpenAIInstance k st
                      in instance_generateTTS w i txt (characterId options)
                           (passed_options_early options) st1)
         | None \<Rightarrow> (None, st))
      else (None, st))"

definition preferGroq_early ::
  "world \<Rightarrow> jsstring \<Rightarrow> user \<Rightarrow> jsstring \<Rightarrow> TTSGenerationOptions \<Rightarrow> step" where
  "preferGroq_early w txt u preferredService options st =
     (if preferredService = js ''groq'' then
        (case given (groqApiKey u) of
           Some k \<Rightarrow>
             attempt (let (i, st1) = getGroqInstance k st
                      in instance_generateTTS w i txt (characterId options)
                           (passed_options_early options) st1)
         | None \<Rightarrow> (None, st))
      else (None, st))"

definition preferencePhase_early :: "world \<Rightarrow> jsstring \<Rightarrow> user \<Rightarrow> TTSGenerationOptions \<Rightarrow> step" where
  "preferencePhase_early w txt u options =
     (let preferredService = or_string (preferredTtsService u) (js ''system'') in
      first_return
        [preferOpenAI_early w txt u preferredService options,
         preferGroq_early w txt u preferredService options])"

definition generateTTS_try_early ::
  "world \<Rightarrow> jsstring \<Rightarrow> jsstring \<Rightarrow> TTSGenerationOptions \<Rightarrow> manager \<Rightarrow> (error + tts_result) \<times> manager" where
  "generateTTS_try_early w txt userId options st =
     (case getUser w userId of
        Inl e \<Rightarrow> (Inl e, st)
      | Inr None \<Rightarrow> (Inl (Error (js ''User not found'')), st)
      | Inr (Some u) \<Rightarrow>
          (case preferencePhase_early w txt u options st of
             (Some r, st') \<Rightarrow> (Inr r, st')
           | (None, st') \<Rightarrow> useSystemTTS_early w txt options st'))"

definition generateTTS_early ::
  "world \<Rightarrow> jsstring \<Rightarrow> jsstring \<Rightarrow> TTSGenerationOptions \<Rightarrow> manager \<Rightarrow> (error + tts_result) \<times> manager" where
  "generateTTS_early w txt userId options st =
     (case generateTTS_try_early w txt userId options st of
        (Inr r, st') \<Rightarrow> (Inr r, st')
      | (Inl e, st') \<Rightarrow> (Inr (emptyAudio txt), st'))"

definition testUserAPIKey_try_early ::
  "world \<Rightarrow> user \<Rightarrow> jsstring \<Rightarrow> manager \<Rightarrow> (error + bool) \<times> manager" where
  "testUserAPIKey_try_early w u service_name st =
     (case (if service_name = js ''openai'' then given (openaiApiKey u) else None) of
        Some k \<Rightarrow> testOpenAI w k st
      | None \<Rightarrow>
     (case (if service_name = js ''groq'' then given (groqApiKey u) else None) of
        Some k \<Rightarrow> (let (i, st1) = getGroqInstance k st in instance_testConnection w i st1)
      | None \<Rightarrow> (Inr False, st)))"

definition testUserAPIKey_early ::
  "world \<Rightarrow> jsstring \<Rightarrow> jsstring \<Rightarrow> manager \<Rightarrow> (error + bool) \<times> manager" where
  "testUserAPIKey_early w userId service_name st =
     (case getUser w userId of
        Inl e \<Rightarrow> (Inl e, st)
      | Inr None \<Rightarrow> (Inr False, st)
      | Inr (Some u) \<Rightarrow>
          (case testUserAPIKey_try_early w u service_name st of
             (Inr b, st') \<Rightarrow> (Inr b, st')
           | (Inl e, st') \<Rightarrow> (Inr False, st')))"

definition clearUserInstances_early :: "jsstring \<Rightarrow> manager \<Rightarrow> manager" where
  "clearUserInstances_early userId st =
     st\<lparr>openaiInstances := Map.empty, groqInstances := Map.empty\<rparr>"

section \<open>Notions the properties are stated with\<close>

subsection \<open>The caches as one cache\<close>

text \<open>
  The four getters as one operation on a vendor, an API key and the voice-cloning flag
  (which only the MyShell getter reads), the composite key under which it caches, the four
  maps as one lookup, and the instance a factory constructs in a given state.
\<close>

definition getInstance :: "vendor \<Rightarrow> jsstring \<Rightarrow> bool \<Rightarrow> manager \<Rightarrow> provider_instance \<times> manager" where
  "getInstance v k cloning st =
     (case v of
        OpenAI \<Rightarrow> getOpenAIInstance k st
      | Groq \<Rightarrow> getGroqInstance k st
      | ElevenLabs \<Rightarrow> getElevenLabsInstance k st
      | MyShell \<Rightarrow> getMyShellInstance k cloning st)"

definition cache_key :: "vendor \<Rightarrow> jsstring \<Rightarrow> bool \<Rightarrow> vendor \<times> jsstring" where
  "cache_key v k cloning = (v, if v = MyShell then myshell_key k cloning else k)"

fun cached :: "manager \<Rightarrow> vendor \<times> jsstring \<Rightarrow> provider_instance option" where
  "cached st (OpenAI, key) = openaiInstances st key"
| "cached st (Groq, key) = groqInstances st key"
| "cached st (ElevenLabs, key) = elevenlabsInstances st key"
| "cached st (MyShell, key) = myshellInstances st key"

definition constructed :: "vendor \<Rightarrow> jsstring \<Rightarrow> bool \<Rightarrow> manager \<Rightarrow> provider_instance" where
  "constructed v k c st =
     \<lparr>ref = allocated st, service = v, apiKey = k, voiceCloning = (v = MyShell \<and> c)\<rparr>"

text \<open>
  The caches of a manager are in order when every cached instance was constructed earlier,
  for the vendor and key it is cached under, and no object is cached under two keys. A
  new manager is so, and every operation keeps it so.
\<close>

definition cache_ok :: "manager \<Rightarrow> bool" where
  "cache_ok st \<longleftrightarrow>
     (\<forall>v key i. cached st (v, key) = Some i \<longrightarrow>
        ref i < allocated st \<and> service i = v \<and> cache_key v (apiKey i) (voiceCloning i) = (v, key)) \<and>
     (\<forall>v key v' key' i i'. cached st (v, key) = Some i \<longrightarrow> cached st (v', key') = Some i' \<longrightarrow>
        ref i = ref i' \<longrightarrow> v = v' \<and> key = key')"

subsection \<open>Attempts, calls and failures\<close>

text \<open>
  One attempt on a vendor with a key, as the blocks of \<open>generateTTS\<close> make it: the
  instance comes from that vendor's getter (MyShell with voice cloning), and a call that
  throws is caught.
\<close>

definition use_vendor ::
  "world \<Rightarrow> vendor \<Rightarrow> jsstring \<Rightarrow> jsstring \<Rightarrow> jsstring \<Rightarrow> client_options \<Rightarrow> step" where
  "use_vendor w v k txt cid opts st =
     attempt (let (i, st1) = getInstance v k True st
              in instance_generateTTS w i txt cid opts st1)"

text \<open>The second state has the calls of the first, and maybe more after them.\<close>

definition grows :: "manager \<Rightarrow> manager \<Rightarrow> bool" where
  "grows st st' \<longleftrightarrow> (\<exists>more. calls st' = calls st @ more)"

text \<open>Every call to a vendor or engine throws, whenever it is made.\<close>

definition every_call_throws :: "world \<Rightarrow> bool" where
  "every_call_throws w \<longleftrightarrow>
     (\<forall>now k req. isl (groq_speech w now k req)) \<and>
     (\<forall>now i t c opts. isl (client_generateTTS w now i t c opts)) \<and>
     (\<forall>now i. isl (client_testConnection w now i)) \<and>
     (\<forall>now e t c. isl (engine_generate w now e t c))"

subsection \<open>The preference phase and the stored keys, in words\<close>

text \<open>
  The vendor and key of the preference phase: MyShell (also when no preference is stored),
  Groq and ElevenLabs with the user's key when it is truthy and else with the key of the
  process for that vendor; OpenAI with the user's key only; no attempt for any other
  preference or when no key is found. In the early variant: OpenAI or Groq, with the
  user's key only.
\<close>

definition preferred_credential :: "process_env \<Rightarrow> user \<Rightarrow> (vendor \<times> jsstring) option" where
  "preferred_credential e u =
     (let p = or_string (preferredTtsService u) (js ''myshell'') in
      if p = js ''myshell'' then
        map_option (Pair MyShell) (given (or_else (myshellApiKey u) (MYSHELL_API_KEY e)))
      else if p = js ''openai'' then
        map_option (Pair OpenAI) (given (openaiApiKey u))
      else if p = js ''groq'' then
        map_option (Pair Groq) (given (or_else (groqApiKey u) (GROQ_API_KEY e)))
      else if p = js ''elevenlabs'' then
        map_option (Pair ElevenLabs) (given (or_else (elevenlabsApiKey u) (ELEVENLABS_API_KEY e)))
      else None)"

definition preferred_credential_early :: "user \<Rightarrow> (vendor \<times> jsstring) option" where
  "preferred_credential_early u =
     (let p = or_string (preferredTtsService u) (js ''system'') in
      if p = js ''openai'' then map_option (Pair OpenAI) (given (openaiApiKey u))
      else if p = js ''groq'' then map_option (Pair Groq) (given (groqApiKey u))
      else None)"

text \<open>The key a user stores for a service name.\<close>

definition stored_key :: "user \<Rightarrow> jsstring \<Rightarrow> jsstring option" where
  "stored_key u service_name =
     (if service_name = js ''openai'' then openaiApiKey u
      else if service_name = js ''groq'' then groqApiKey u
      else if service_name = js ''elevenlabs'' then elevenlabsApiKey u
      else if service_name = js ''myshell'' then myshellApiKey u
      else None)"

text \<open>The vendor a service name stands for.\<close>

definition named_vendor :: "jsstring \<Rightarrow> vendor option" where
  "named_vendor service_name =
     (if service_name = js ''openai'' then Some OpenAI
      else if service_name = js ''groq'' then Some Groq
      else if service_name = js ''elevenlabs'' then Some ElevenLabs
      else if service_name = js ''myshell'' then Some MyShell
      else None)"

text \<open>
  The one call to a provider that the test of a key makes in a given state, on the instance
  the vendor's getter gives for the key (MyShell with voice cloning), and what the call
  gives when it returns. For OpenAI it is the synthesis of \<open>"Test"\<close> for the character
  \<open>"test"\<close> with no options, which gives whether the audio URL is not empty; for Groq the
  request of the client's \<open>testConnection\<close> to the SDK, which gives whether the buffer is
  not empty; for ElevenLabs and MyShell the \<open>testConnection\<close> of the client.
\<close>

definition provider_call :: "world \<Rightarrow> vendor \<Rightarrow> jsstring \<Rightarrow> manager \<Rightarrow> error + bool" where
  "provider_call w v k st =
     (let now = length (calls st); i = fst (getInstance v k True st) in
      case v of
        OpenAI \<Rightarrow>
          (case client_generateTTS w now i (js ''Test'') (js ''test'') no_options of
             Inr r \<Rightarrow> Inr (length (audioUrl r) > 0)
           | Inl e \<Rightarrow> Inl e)
      | Groq \<Rightarrow>
          (case groq_speech w now k \<lparr>input = js ''Test connection'', speed = None\<rparr> of
             Inr buffer \<Rightarrow> Inr (length buffer > 0)
           | Inl e \<Rightarrow> Inl e)
      | ElevenLabs \<Rightarrow> client_testConnection w now i
      | MyShell \<Rightarrow> client_testConnection w now i)"

subsection \<open>The speed, in words\<close>

text \<open>
  The base speed of a character and the modifier of a style, each 1.0 outside its table,
  and the clamp.
\<close>

definition baseSpeedForCharacter :: "jsstring \<Rightarrow> real" where
  "baseSpeedForCharacter c = (case map_of characterSpeeds c of Some v \<Rightarrow> v | None \<Rightarrow> 1.0)"

definition styleModifier :: "jsstring option \<Rightarrow> real" where
  "styleModifier s =
     (case map_of styleModifiers (or_string s (js ''confident'')) of Some v \<Rightarrow> v | None \<Rightarrow> 1.0)"

definition clamp :: "real \<Rightarrow> real \<Rightarrow> real \<Rightarrow> real" where
  "clamp x lo hi = max lo (min hi x)"

subsection \<open>Concrete users, options and worlds\<close>

definition no_keys :: user where
  "no_keys = \<lparr>preferredTtsService = None, openaiApiKey = None, groqApiKey = None,
     elevenlabsApiKey = None, myshellApiKey = None\<rparr>"

definition prefers_groq_with_key :: user where
  "prefers_groq_with_key =
     no_keys\<lparr>preferredTtsService := Some (js ''groq''), groqApiKey := Some (js ''gsk_user'')\<rparr>"

definition prefers_openai_with_keys :: user where
  "prefers_openai_with_keys =
     no_keys\<lparr>preferredTtsService := Some (js ''openai''), openaiApiKey := Some (js ''sk_user''),
             groqApiKey := Some (js ''gsk_user'')\<rparr>"

definition prefers_openai_without_key :: user where
  "prefers_openai_without_key = no_keys\<lparr>preferredTtsService := Some (js ''openai'')\<rparr>"

definition no_env :: process_env where
  "no_env = \<lparr>MYSHELL_API_KEY = None, ELEVENLABS_API_KEY = None, GROQ_API_KEY = None,
     OPENAI_API_KEY = None\<rparr>"

definition silk :: TTSGenerationOptions where
  "silk = \<lparr>voiceStyle = None, characterName = None, gender = None, speedMultiplier = None,
     characterId = js ''silk''\<rparr>"

definition cypher :: TTSGenerationOptions where
  "cypher = \<lparr>voiceStyle = None, characterName = None, gender = None, speedMultiplier = None,
     characterId = js ''cypher''\<rparr>"

text \<open>
  A world where every call throws: user \<open>u1\<close> prefers Groq and stores a Groq key, there
  is no other user, and the process has keys for Groq and OpenAI.
\<close>

definition failing_world :: world where
  "failing_world =
     \<lparr>getUser = (\<lambda>userId.
          if userId = js ''u1'' then Inr (Some prefers_groq_with_key) else Inr None),
      env = no_env\<lparr>GROQ_API_KEY := Some (js ''gsk_system''),
                   OPENAI_API_KEY := Some (js ''sk_system'')\<rparr>,
      groq_speech = (\<lambda>now k req. Inl (Error (js ''401''))),
      client_generateTTS = (\<lambda>now i t c opts. Inl (Error (js ''timeout''))),
      client_testConnection = (\<lambda>now i. Inl (Error (js ''timeout''))),
      engine_generate = (\<lambda>now e t c. Inl (Error (js ''down'')))\<rparr>"

text \<open>
  A world where every call succeeds. User \<open>u1\<close> stores nothing; \<open>u2\<close> prefers OpenAI
  and stores an OpenAI and a Groq key; \<open>u3\<close> prefers OpenAI and stores nothing; there
  is no other user. The process has keys for Groq and OpenAI.
\<close>

definition answering_world :: world where
  "answering_world =
     \<lparr>getUser = (\<lambda>userId.
          if userId = js ''u1'' then Inr (Some no_keys)
          else if userId = js ''u2'' then Inr (Some prefers_openai_with_keys)
          else if userId = js ''u3'' then Inr (Some prefers_openai_without_key)
          else Inr None),
      env = no_env\<lparr>GROQ_API_KEY := Some (js ''gsk_system''),
                   OPENAI_API_KEY := Some (js ''sk_system'')\<rparr>,
      groq_speech = (\<lambda>now k req. Inr (js ''UklGRg=='')),
      client_generateTTS = (\<lambda>now i t c opts.
          Inr \<lparr>audioUrl = js ''data:audio/mp3;base64,SUQz'', duration = length t div 15\<rparr>),
      client_testConnection = (\<lambda>now i. Inr True),
      engine_generate = (\<lambda>now e t c. Inr \<lparr>audioUrl = js ''/audio/bark.wav'', duration = 1\<rparr>)\<rparr>"

text \<open>
  A world with one user record, which stores nothing, no key in the process, and vendors
  that would answer.
\<close>

definition keyless_world :: world where
  "keyless_world = answering_world\<lparr>getUser := (\<lambda>userId. Inr (Some no_keys)), env := no_env\<rparr>"

text \<open>The answering world with a storage whose every lookup rejects.\<close>

definition storage_down_world :: world where
  "storage_down_world =
     answering_world\<lparr>getUser := (\<lambda>userId. Inl (Error (js ''connection refused'')))\<rparr>"

text \<open>The answering world with a Groq SDK whose every request throws.\<close>

definition groq_down_world :: world where
  "groq_down_world = answering_world\<lparr>groq_speech := (\<lambda>now k req. Inl (Error (js ''401'')))\<rparr>"

section \<open>Properties\<close>

subsection \<open>Optional strings and service names\<close>

lemma given_or_else:
  "given (or_else a b) = (case given a of Some k \<Rightarrow> Some k | None \<Rightarrow> given b)"
  by (cases a) (auto simp: or_else_def)

lemma given_None_iff: "given a = None \<longleftrightarrow> \<not> truthy a"
  by (cases a) auto

lemma given_Some_iff: "given a = Some k \<longleftrightarrow> a = Some k \<and> k \<noteq> []"
  by (cases a) auto

lemma service_names_distinct:
  "js ''myshell'' \<noteq> js ''openai''" "js ''myshell'' \<noteq> js ''groq''"
  "js ''myshell'' \<noteq> js ''elevenlabs''" "js ''openai'' \<noteq> js ''groq''"
  "js ''openai'' \<noteq> js ''elevenlabs''" "js ''groq'' \<noteq> js ''elevenlabs''"
  by (simp_all add: js_def)

subsection \<open>The instance caches\<close>

lemma cache_okD:
  assumes "cache_ok st" "cached st (v, key) = Some i"
  shows "ref i < allocated st" "service i = v" "cache_key v (apiKey i) (voiceCloning i) = (v, key)"
  using assms unfolding cache_ok_def by simp_all

lemma cache_ok_inj:
  assumes "cache_ok st" "cached st (v, key) = Some i" "cached st (v', key') = Some i'" "ref i = ref i'"
  shows "v = v' \<and> key = key'"
proof -
  from assms(1) have "\<forall>v key v' key' i i'. cached st (v, key) = Some i \<longrightarrow> cached st (v', key') = Some i' \<longrightarrow>
        ref i = ref i' \<longrightarrow> v = v' \<and> key = key'"
    unfolding cache_ok_def by (rule conjunct2)
  then show ?thesis using assms(2-4) by blast
qed

lemma myshell_key_inj: "myshell_key k c = myshell_key k' c' \<longleftrightarrow> k = k' \<and> c = c'"
proof
  assume eq: "myshell_key k c = myshell_key k' c'"
  show "k = k' \<and> c = c'"
  proof (cases "c = c'")
    case True
    with eq show ?thesis by (simp add: myshell_key_def)
  next
    case False
    from eq have "rev (myshell_key k c) ! 1 = rev (myshell_key k' c') ! 1" by simp
    with False show ?thesis by (cases c; cases c') (simp_all add: myshell_key_def js_def)
  qed
qed simp

lemma cache_key_inj:
  "cache_key v k c = cache_key v' k' c' \<longleftrightarrow> v = v' \<and> k = k' \<and> (v = MyShell \<longrightarrow> c = c')"
  by (auto simp: cache_key_def myshell_key_inj)

lemma getInstance_cached:
  "cached st (cache_key v k c) = Some i \<Longrightarrow> getInstance v k c st = (i, st)"
  by (cases v)
     (simp_all add: getInstance_def cache_key_def getOpenAIInstance_def getGroqInstance_def
       getElevenLabsInstance_def getMyShellInstance_def)

lemma getInstance_new_fst:
  assumes "cached st (cache_key v k c) = None"
  shows "fst (getInstance v k c st) = constructed v k c st"
  using assms
  by (cases v)
     (simp_all add: getInstance_def cache_key_def getOpenAIInstance_def getGroqInstance_def
       getElevenLabsInstance_def getMyShellInstance_def constructed_def construct_def
       createOpenAITTS_def createGroqTTS_def createElevenLabsTTS_def createMyShellTTS_def)

lemmas getInstance_defs =
  getInstance_def getOpenAIInstance_def getGroqInstance_def getElevenLabsInstance_def
  getMyShellInstance_def construct_def createOpenAITTS_def createGroqTTS_def
  createElevenLabsTTS_def createMyShellTTS_def Let_def

lemma getInstance_new_cached:
  assumes "cached st (cache_key v k c) = None"
  shows "cached (snd (getInstance v k c st)) e =
           (if e = cache_key v k c then Some (constructed v k c st) else cached st e)"
proof (cases e)
  case (Pair v' key)
  show ?thesis
    unfolding Pair using assms
    by (cases v; cases v') (simp_all add: getInstance_defs cache_key_def constructed_def)
qed

lemma getInstance_new_allocated:
  assumes "cached st (cache_key v k c) = None"
  shows "allocated (snd (getInstance v k c st)) = Suc (allocated st)"
  using assms
  by (cases v) (simp_all add: getInstance_defs cache_key_def)

lemma getInstance_calls: "calls (snd (getInstance v k c st)) = calls st"
  by (cases v) (simp_all add: getInstance_defs split: option.splits)

lemma getInstance_twice:
  "getInstance v k c (snd (getInstance v k c st)) = getInstance v k c st"
proof (cases "cached st (cache_key v k c)")
  case None
  have "cached (snd (getInstance v k c st)) (cache_key v k c) = Some (constructed v k c st)"
    using getInstance_new_cached [OF None, of "cache_key v k c"]
    by simp
  then have "getInstance v k c (snd (getInstance v k c st)) =
      (constructed v k c st, snd (getInstance v k c st))"
    by (rule getInstance_cached)
  then show ?thesis
    using getInstance_new_fst [OF None] by (simp add: prod_eq_iff)
next
  case (Some i)
  then show ?thesis by (simp add: getInstance_cached)
qed

lemma cached_new_manager: "cached new_manager (v, key) = None"
  by (cases v) (simp_all add: new_manager_def)

lemma cached_new_manager_key: "cached new_manager (cache_key v k c) = None"
  by (simp add: cache_key_def cached_new_manager)

lemma allocated_new_manager: "allocated new_manager = 0"
  by (simp add: new_manager_def)

lemma cache_ok_new: "cache_ok new_manager"
  by (simp add: cache_ok_def cached_new_manager)

lemma getInstance_stores:
  "cached (snd (getInstance v k c st)) (cache_key v k c) = Some (fst (getInstance v k c st))"
proof (cases "cached st (cache_key v k c)")
  case None
  show ?thesis
    using getInstance_new_cached [OF None, of "cache_key v k c"]
      getInstance_new_fst [OF None]
    by simp
next
  case (Some i)
  then show ?thesis by (simp add: getInstance_cached)
qed

lemma getInstance_keeps:
  assumes "cached st (v', key) = Some i"
  shows "cached (snd (getInstance v k c st)) (v', key) = Some i"
proof (cases "cached st (cache_key v k c)")
  case None
  with assms have "(v', key) \<noteq> cache_key v k c" by auto
  then show ?thesis using getInstance_new_cached [OF None, of "(v', key)"] assms by simp
next
  case (Some j)
  then show ?thesis using assms by (simp add: getInstance_cached)
qed

lemma cache_ok_getInstance:
  assumes "cache_ok st"
  shows "cache_ok (snd (getInstance v k c st))"
proof (cases "cached st (cache_key v k c)")
  case (Some j)
  then show ?thesis using assms by (simp add: getInstance_cached)
next
  case None
  let ?st = "snd (getInstance v k c st)"
  let ?new = "constructed v k c st"
  have upd: "\<And>e. cached ?st e = (if e = cache_key v k c then Some ?new else cached st e)"
    by (rule getInstance_new_cached [OF None])
  have al: "allocated ?st = Suc (allocated st)"
    by (rule getInstance_new_allocated [OF None])
  have new_ref: "ref ?new = allocated st" by (simp add: constructed_def)
  have new_fields: "service ?new = v"
    "cache_key v (apiKey ?new) (voiceCloning ?new) = cache_key v k c"
    by (simp_all add: constructed_def cache_key_def)
  have entry: "ref i < allocated ?st \<and> service i = v' \<and>
      cache_key v' (apiKey i) (voiceCloning i) = (v', key)"
    if c: "cached ?st (v', key) = Some i" for v' key i
  proof (cases "(v', key) = cache_key v k c")
    case True
    with c have i: "i = ?new" by (simp add: upd)
    from True have v': "v' = v" by (simp add: cache_key_def)
    show ?thesis using new_fields new_ref True by (simp add: i v' al)
  next
    case False
    with c have "cached st (v', key) = Some i" by (simp add: upd)
    from cache_okD [OF assms this] show ?thesis by (simp add: al)
  qed
  have inj: "v1 = v2 \<and> k1 = k2"
    if a: "cached ?st (v1, k1) = Some i1" "cached ?st (v2, k2) = Some i2" "ref i1 = ref i2"
    for v1 k1 v2 k2 i1 i2
  proof (cases "(v1, k1) = cache_key v k c")
    case True
    note one = this
    show ?thesis
    proof (cases "(v2, k2) = cache_key v k c")
      case True
      with one have "(v1, k1) = (v2, k2)" by simp
      then show ?thesis by simp
    next
      case False
      with a have "cached st (v2, k2) = Some i2" by (simp add: upd)
      then have "ref i2 < allocated st" by (rule cache_okD(1) [OF assms])
      moreover from a one have "ref i1 = allocated st" using new_ref by (simp add: upd)
      ultimately show ?thesis using a by simp
    qed
  next
    case False
    note one = this
    with a have c1: "cached st (v1, k1) = Some i1" by (simp add: upd)
    show ?thesis
    proof (cases "(v2, k2) = cache_key v k c")
      case True
      from c1 have "ref i1 < allocated st" by (rule cache_okD(1) [OF assms])
      moreover from a True have "ref i2 = allocated st" using new_ref by (simp add: upd)
      ultimately show ?thesis using a by simp
    next
      case False
      with a have "cached st (v2, k2) = Some i2" by (simp add: upd)
      with c1 show ?thesis using a(3) by (rule cache_ok_inj [OF assms])
    qed
  qed
  show ?thesis
    unfolding cache_ok_def
  proof (intro conjI allI impI)
    fix v' key i
    assume "cached ?st (v', key) = Some i"
    from entry [OF this]
    show "ref i < allocated ?st" "service i = v'"
      "cache_key v' (apiKey i) (voiceCloning i) = (v', key)"
      by simp_all
  next
    fix v1 k1 v2 k2 i1 i2
    assume "cached ?st (v1, k1) = Some i1" "cached ?st (v2, k2) = Some i2" "ref i1 = ref i2"
    from inj [OF this] show "v1 = v2" "k1 = k2" by simp_all
  qed
qed

lemma getInstance_distinct:
  assumes ok: "cache_ok st" and ne: "cache_key v k c \<noteq> cache_key v' k' c'"
  shows "ref (fst (getInstance v' k' c' (snd (getInstance v k c st)))) \<noteq>
         ref (fst (getInstance v k c st))"
proof
  let ?st1 = "snd (getInstance v k c st)"
  let ?st2 = "snd (getInstance v' k' c' ?st1)"
  assume eq: "ref (fst (getInstance v' k' c' ?st1)) = ref (fst (getInstance v k c st))"
  obtain key where key: "cache_key v k c = (v, key)" by (simp add: cache_key_def)
  obtain key' where key': "cache_key v' k' c' = (v', key')" by (simp add: cache_key_def)
  have "cached ?st1 (v, key) = Some (fst (getInstance v k c st))"
    using getInstance_stores [of v k c st] by (simp add: key)
  then have one: "cached ?st2 (v, key) = Some (fst (getInstance v k c st))"
    by (rule getInstance_keeps)
  have two: "cached ?st2 (v', key') = Some (fst (getInstance v' k' c' ?st1))"
    using getInstance_stores [of v' k' c' ?st1] by (simp add: key')
  have "cache_ok ?st2" by (intro cache_ok_getInstance ok)
  from cache_ok_inj [OF this two one eq] have "(v, key) = (v', key')" by simp
  with ne key key' show False by simp
qed

lemma getInstance_fields:
  assumes "cache_ok st"
  shows "service (fst (getInstance v k c st)) = v \<and> apiKey (fst (getInstance v k c st)) = k"
proof (cases "cached st (cache_key v k c)")
  case None
  then show ?thesis by (simp add: getInstance_new_fst constructed_def)
next
  case (Some i)
  obtain key where key: "cache_key v k c = (v, key)" by (simp add: cache_key_def)
  from Some have "cached st (v, key) = Some i" by (simp add: key)
  from cache_okD(2,3) [OF assms this]
  have "service i = v" "cache_key v (apiKey i) (voiceCloning i) = cache_key v k c"
    by (simp_all add: key)
  then show ?thesis using Some by (simp add: getInstance_cached cache_key_inj)
qed

lemma cached_clear: "cached (clearUserInstances userId st) (v, key) = None"
  by (cases v) (simp_all add: clearUserInstances_def)

lemma cache_ok_clear: "cache_ok (clearUserInstances userId st)"
  by (simp add: cache_ok_def cached_clear)

lemma allocated_clear: "allocated (clearUserInstances userId st) = allocated st"
  by (simp add: clearUserInstances_def)

lemma cached_clear_early:
  "cached (clearUserInstances_early userId st) (v, key) =
     (if v = OpenAI \<or> v = Groq then None else cached st (v, key))"
  by (cases v) (simp_all add: clearUserInstances_early_def)

lemma cache_ok_clear_early:
  assumes "cache_ok st"
  shows "cache_ok (clearUserInstances_early userId st)"
  unfolding cache_ok_def
proof (intro conjI allI impI)
  fix v key i
  assume "cached (clearUserInstances_early userId st) (v, key) = Some i"
  then have "cached st (v, key) = Some i" by (simp add: cached_clear_early split: if_splits)
  from cache_okD [OF assms this]
  show "ref i < allocated (clearUserInstances_early userId st)" "service i = v"
    "cache_key v (apiKey i) (voiceCloning i) = (v, key)"
    by (simp_all add: clearUserInstances_early_def)
next
  fix v key v' key' i i'
  assume "cached (clearUserInstances_early userId st) (v, key) = Some i"
    "cached (clearUserInstances_early userId st) (v', key') = Some i'" "ref i = ref i'"
  then have "cached st (v, key) = Some i" "cached st (v', key') = Some i'" "ref i = ref i'"
    by (simp_all add: cached_clear_early split: if_splits)
  from cache_ok_inj [OF assms this] show "v = v'" "key = key'" by simp_all
qed

lemma cached_calls_update: "cached (st\<lparr>calls := cs\<rparr>) e = cached st e"
  by (cases e; cases "fst e") simp_all

lemma cache_ok_calls_update: "cache_ok (st\<lparr>calls := cs\<rparr>) = cache_ok st"
  by (simp add: cache_ok_def cached_calls_update)

text \<open>
  Claim C7. For every vendor, API key and voice-cloning flag: a second call of the getter
  with the same arguments returns the instance the first call returned and leaves the
  state as it was; a call with a different composite key (another vendor's cache, another
  key string, or for MyShell another flag) returns an object with a different reference;
  and a call whose composite key is not cached constructs the instance, with the next
  fresh reference, and stores it under that key.
\<close>

theorem getInstance_memoizes:
  "getInstance v k c (snd (getInstance v k c st)) =
     (fst (getInstance v k c st), snd (getInstance v k c st)) \<and>
   (cache_ok st \<and> (v \<noteq> v' \<or> k \<noteq> k' \<or> (v = MyShell \<and> c \<noteq> c')) \<longrightarrow>
      ref (fst (getInstance v' k' c' (snd (getInstance v k c st)))) \<noteq>
      ref (fst (getInstance v k c st))) \<and>
   (cached st (cache_key v k c) = None \<longrightarrow>
      fst (getInstance v k c st) = constructed v k c st \<and>
      cached (snd (getInstance v k c st)) (cache_key v k c) = Some (constructed v k c st) \<and>
      allocated (snd (getInstance v k c st)) = Suc (allocated st))"
proof (intro conjI impI)
  show "getInstance v k c (snd (getInstance v k c st)) =
     (fst (getInstance v k c st), snd (getInstance v k c st))"
    by (simp add: getInstance_twice)
next
  assume a: "cache_ok st \<and> (v \<noteq> v' \<or> k \<noteq> k' \<or> (v = MyShell \<and> c \<noteq> c'))"
  then have "cache_key v k c \<noteq> cache_key v' k' c'" by (auto simp: cache_key_inj)
  with a show "ref (fst (getInstance v' k' c' (snd (getInstance v k c st)))) \<noteq>
      ref (fst (getInstance v k c st))"
    by (simp add: getInstance_distinct)
next
  assume n: "cached st (cache_key v k c) = None"
  show "fst (getInstance v k c st) = constructed v k c st"
    by (rule getInstance_new_fst [OF n])
  show "cached (snd (getInstance v k c st)) (cache_key v k c) = Some (constructed v k c st)"
    by (simp add: getInstance_new_cached [OF n])
  show "allocated (snd (getInstance v k c st)) = Suc (allocated st)"
    by (rule getInstance_new_allocated [OF n])
qed

theorem getInstance_memoizes_witness:
  "cache_ok new_manager \<and> cached new_manager (cache_key MyShell (js ''ms_key'') True) = None \<and>
   ref (fst (getInstance MyShell (js ''ms_key'') False
         (snd (getInstance MyShell (js ''ms_key'') True new_manager)))) \<noteq>
   ref (fst (getInstance MyShell (js ''ms_key'') True new_manager)) \<and>
   fst (getInstance MyShell (js ''ms_key'') True new_manager) =
     \<lparr>ref = 0, service = MyShell, apiKey = js ''ms_key'', voiceCloning = True\<rparr>"
proof -
  note t = getInstance_memoizes [of MyShell "js ''ms_key''" True new_manager
      MyShell "js ''ms_key''" False]
  have ok: "cache_ok new_manager" by (rule cache_ok_new)
  have n: "cached new_manager (cache_key MyShell (js ''ms_key'') True) = None"
    by (rule cached_new_manager_key)
  from t ok have d: "ref (fst (getInstance MyShell (js ''ms_key'') False
         (snd (getInstance MyShell (js ''ms_key'') True new_manager)))) \<noteq>
   ref (fst (getInstance MyShell (js ''ms_key'') True new_manager))"
    by simp
  from t n have "fst (getInstance MyShell (js ''ms_key'') True new_manager) =
      constructed MyShell (js ''ms_key'') True new_manager"
    by simp
  then have f: "fst (getInstance MyShell (js ''ms_key'') True new_manager) =
     \<lparr>ref = 0, service = MyShell, apiKey = js ''ms_key'', voiceCloning = True\<rparr>"
    by (simp add: constructed_def allocated_new_manager)
  from ok n d f show ?thesis by blast
qed

text \<open>A state with one Groq instance cached, for the instance below.\<close>

lemma one_groq_cached:
  "cached (snd (getInstance Groq (js ''gsk_user'') False new_manager))
     (cache_key Groq (js ''gsk_user'') False) =
   Some \<lparr>ref = 0, service = Groq, apiKey = js ''gsk_user'', voiceCloning = False\<rparr>"
  using getInstance_stores [of Groq "js ''gsk_user''" False new_manager]
    getInstance_new_fst [OF cached_new_manager_key, of Groq "js ''gsk_user''" False]
  by (simp add: constructed_def allocated_new_manager)

text \<open>
  Claim C8. \<open>clearUserInstances\<close> does the same whatever user id it is given: it empties
  every cache of every vendor. A getter called afterwards with a key that was cached
  before constructs a new instance, whose reference differs from that of the instance
  cached before. The early variant does so for its two caches, OpenAI and Groq.
\<close>

theorem clearUserInstances_drops_all:
  "clearUserInstances userId st = clearUserInstances userId' st \<and>
   cached (clearUserInstances userId st) (v', key') = None \<and>
   (cache_ok st \<and> cached st (cache_key v k c) = Some old \<longrightarrow>
      fst (getInstance v k c (clearUserInstances userId st)) = constructed v k c st \<and>
      ref (fst (getInstance v k c (clearUserInstances userId st))) \<noteq> ref old) \<and>
   clearUserInstances_early userId st = clearUserInstances_early userId' st \<and>
   openaiInstances (clearUserInstances_early userId st) = Map.empty \<and>
   groqInstances (clearUserInstances_early userId st) = Map.empty \<and>
   (cache_ok st \<and> (v = OpenAI \<or> v = Groq) \<and> cached st (cache_key v k c) = Some old \<longrightarrow>
      fst (getInstance v k c (clearUserInstances_early userId st)) = constructed v k c st \<and>
      ref (fst (getInstance v k c (clearUserInstances_early userId st))) \<noteq> ref old)"
proof (intro conjI impI)
  show "clearUserInstances userId st = clearUserInstances userId' st"
    by (simp add: clearUserInstances_def)
  show "cached (clearUserInstances userId st) (v', key') = None"
    by (rule cached_clear)
  show "clearUserInstances_early userId st = clearUserInstances_early userId' st"
    by (simp add: clearUserInstances_early_def)
  show "openaiInstances (clearUserInstances_early userId st) = Map.empty"
    by (simp add: clearUserInstances_early_def)
  show "groqInstances (clearUserInstances_early userId st) = Map.empty"
    by (simp add: clearUserInstances_early_def)
next
  assume a: "cache_ok st \<and> cached st (cache_key v k c) = Some old"
  obtain key where key: "cache_key v k c = (v, key)" by (simp add: cache_key_def)
  from a have "cached st (v, key) = Some old" by (simp add: key)
  with a have old: "ref old < allocated st" using cache_okD(1) by blast
  have n: "cached (clearUserInstances userId st) (cache_key v k c) = None"
    by (simp add: key cached_clear)
  from getInstance_new_fst [OF n]
  show new: "fst (getInstance v k c (clearUserInstances userId st)) = constructed v k c st"
    by (simp add: constructed_def allocated_clear)
  show "ref (fst (getInstance v k c (clearUserInstances userId st))) \<noteq> ref old"
    using old by (simp add: new constructed_def)
next
  assume a: "cache_ok st \<and> (v = OpenAI \<or> v = Groq) \<and> cached st (cache_key v k c) = Some old"
  obtain key where key: "cache_key v k c = (v, key)" by (simp add: cache_key_def)
  from a have "cached st (v, key) = Some old" by (simp add: key)
  with a have old: "ref old < allocated st" using cache_okD(1) by blast
  have n: "cached (clearUserInstances_early userId st) (cache_key v k c) = None"
    using a by (auto simp: key clearUserInstances_early_def)
  from getInstance_new_fst [OF n]
  show new: "fst (getInstance v k c (clearUserInstances_early userId st)) = constructed v k c st"
    by (simp add: constructed_def clearUserInstances_early_def)
  show "ref (fst (getInstance v k c (clearUserInstances_early userId st))) \<noteq> ref old"
    using old by (simp add: new constructed_def)
qed

theorem clearUserInstances_drops_all_witness:
  "cache_ok (snd (getInstance Groq (js ''gsk_user'') False new_manager)) \<and>
   cached (snd (getInstance Groq (js ''gsk_user'') False new_manager))
     (cache_key Groq (js ''gsk_user'') False) =
   Some \<lparr>ref = 0, service = Groq, apiKey = js ''gsk_user'', voiceCloning = False\<rparr> \<and>
   fst (getInstance Groq (js ''gsk_user'') False
     (clearUserInstances (js ''u2'') (snd (getInstance Groq (js ''gsk_user'') False new_manager)))) =
   \<lparr>ref = 1, service = Groq, apiKey = js ''gsk_user'', voiceCloning = False\<rparr>"
proof -
  let ?st = "snd (getInstance Groq (js ''gsk_user'') False new_manager)"
  let ?old = "\<lparr>ref = 0, service = Groq, apiKey = js ''gsk_user'', voiceCloning = False\<rparr>"
  note t = clearUserInstances_drops_all [of "js ''u2''" ?st "js ''u2''" Groq "[]" Groq
      "js ''gsk_user''" False ?old]
  have ok: "cache_ok ?st" by (rule cache_ok_getInstance [OF cache_ok_new])
  have c: "cached ?st (cache_key Groq (js ''gsk_user'') False) = Some ?old"
    by (rule one_groq_cached)
  have al: "allocated ?st = 1"
    using getInstance_new_allocated [OF cached_new_manager_key, of Groq "js ''gsk_user''" False]
    by (simp add: allocated_new_manager)
  from t ok c have "fst (getInstance Groq (js ''gsk_user'') False
      (clearUserInstances (js ''u2'') ?st)) = constructed Groq (js ''gsk_user'') False ?st"
    by simp
  then have "fst (getInstance Groq (js ''gsk_user'') False (clearUserInstances (js ''u2'') ?st)) =
      \<lparr>ref = 1, service = Groq, apiKey = js ''gsk_user'', voiceCloning = False\<rparr>"
    by (simp add: constructed_def al)
  with ok c show ?thesis by blast
qed

subsection \<open>Attempts and blocks\<close>

lemma use_vendor_eqs:
  "useMyShell w k txt options = use_vendor w MyShell k txt (characterId options) (passed_options options)"
  "useOpenAI w k txt options = use_vendor w OpenAI k txt (characterId options) (passed_options options)"
  "useGroq w k txt options = use_vendor w Groq k txt (characterId options) (passed_options options)"
  "useElevenLabs w k txt options = use_vendor w ElevenLabs k txt (characterId options) (passed_options options)"
  by (simp_all add: fun_eq_iff use_vendor_def useMyShell_def useOpenAI_def useGroq_def
      useElevenLabs_def getInstance_def)

lemma prefer_early_eqs:
  "preferOpenAI_early w txt u (js ''openai'') options st =
     (case given (openaiApiKey u) of
        Some k \<Rightarrow> use_vendor w OpenAI k txt (characterId options) (passed_options_early options) st
      | None \<Rightarrow> (None, st))"
  "preferGroq_early w txt u (js ''groq'') options st =
     (case given (groqApiKey u) of
        Some k \<Rightarrow> use_vendor w Groq k txt (characterId options) (passed_options_early options) st
      | None \<Rightarrow> (None, st))"
  by (simp_all add: preferOpenAI_early_def preferGroq_early_def use_vendor_def getInstance_def
      split: option.splits)

lemma snd_attempt: "snd (attempt x) = snd x"
  by (cases x) (auto simp: attempt_def split: sum.splits)

lemma fst_attempt: "fst (attempt x) = (case fst x of Inr r \<Rightarrow> Some r | Inl e \<Rightarrow> None)"
  by (cases x) (auto simp: attempt_def split: sum.splits)

lemma snd_instance_generateTTS:
  "snd (instance_generateTTS w i txt cid opts st) =
     st\<lparr>calls := calls st @ [Synthesize (service i) (apiKey i)]\<rparr>"
  by (simp add: instance_generateTTS_def Let_def)

lemma snd_use_vendor:
  "snd (use_vendor w v k txt cid opts st) =
     (snd (getInstance v k True st))
       \<lparr>calls := calls st @ [Synthesize (service (fst (getInstance v k True st)))
                                      (apiKey (fst (getInstance v k True st)))]\<rparr>"
proof (cases "getInstance v k True st")
  case (Pair i st1)
  with getInstance_calls [of v k True st] have "calls st1 = calls st" by simp
  with Pair show ?thesis by (simp add: use_vendor_def snd_attempt snd_instance_generateTTS)
qed

lemma fst_use_vendor:
  assumes "cache_ok st"
  shows "fst (use_vendor w v k txt cid opts st) =
     (case (if v = Groq
            then GroqTTSService_generateTTS (groq_speech w) (length (calls st)) k txt cid opts
            else client_generateTTS w (length (calls st)) (fst (getInstance v k True st)) txt cid opts) of
        Inr r \<Rightarrow> Some r
      | Inl e \<Rightarrow> None)"
proof (cases "getInstance v k True st")
  case (Pair i st1)
  with getInstance_calls [of v k True st] have c: "calls st1 = calls st" by simp
  from Pair getInstance_fields [OF assms, of v k True] have f: "service i = v" "apiKey i = k"
    by simp_all
  show ?thesis
    by (simp add: use_vendor_def fst_attempt Pair instance_generateTTS_def Let_def c f)
qed

lemma use_vendor_calls:
  assumes "cache_ok st"
  shows "calls (snd (use_vendor w v k txt cid opts st)) = calls st @ [Synthesize v k]"
  using getInstance_fields [OF assms, of v k True] by (simp add: snd_use_vendor)

lemma cache_ok_use_vendor:
  assumes "cache_ok st"
  shows "cache_ok (snd (use_vendor w v k txt cid opts st))"
  using cache_ok_getInstance [OF assms, of v k True]
  by (simp add: snd_use_vendor cache_ok_calls_update)

lemma first_return_skips:
  "(\<And>b s. b \<in> set bs \<Longrightarrow> b s = (None, s)) \<Longrightarrow> first_return bs st = (None, st)"
proof (induction bs arbitrary: st)
  case Nil
  then show ?case by simp
next
  case (Cons a bs)
  have "a st = (None, st)" using Cons.prems by simp
  moreover have "first_return bs st = (None, st)" using Cons by simp
  ultimately show ?case by simp
qed

lemma first_return_then_skips:
  assumes "\<And>b s. b \<in> set bs \<Longrightarrow> b s = (None, s)"
  shows "first_return (b # bs) st = b st"
proof (cases "b st")
  case (Pair res st')
  have "first_return bs st' = (None, st')" using assms by (rule first_return_skips)
  with Pair show ?thesis by (cases res) simp_all
qed

lemma prefer_skips:
  "p \<noteq> js ''myshell'' \<Longrightarrow> preferMyShell w txt u p options st = (None, st)"
  "p \<noteq> js ''openai'' \<Longrightarrow> preferOpenAI w txt u p options st = (None, st)"
  "p \<noteq> js ''groq'' \<Longrightarrow> preferGroq w txt u p options st = (None, st)"
  "p \<noteq> js ''elevenlabs'' \<Longrightarrow> preferElevenLabs w txt u p options st = (None, st)"
  "p \<noteq> js ''openai'' \<Longrightarrow> preferOpenAI_early w txt u p options st = (None, st)"
  "p \<noteq> js ''groq'' \<Longrightarrow> preferGroq_early w txt u p options st = (None, st)"
  by (simp_all add: preferMyShell_def preferOpenAI_def preferGroq_def preferElevenLabs_def
      preferOpenAI_early_def preferGroq_early_def)

lemma afterOverride_resolves: "\<exists>r st'. afterOverride w txt u options st = (Inr r, st')"
  by (auto simp: afterOverride_def useSystemTTS_def split: prod.splits option.splits)

lemma generateTTS_resolves: "\<exists>r st'. generateTTS w t uid opts st = (Inr r, st')"
  by (auto simp: generateTTS_def split: prod.splits sum.splits)

lemma generateTTS_early_resolves: "\<exists>r st'. generateTTS_early w t uid opts st = (Inr r, st')"
  by (auto simp: generateTTS_early_def split: prod.splits sum.splits)

lemma snd_generateTTS: "snd (generateTTS w txt userId options st) = snd (generateTTS_try w txt userId options st)"
  by (auto simp: generateTTS_def split: prod.splits sum.splits)

lemma getUser_cases:
  obtains (rejects) e where "getUser w userId = Inl e"
  | (absent) "getUser w userId = Inr None"
  | (found) u where "getUser w userId = Inr (Some u)"
  by (cases "getUser w userId") auto

lemma generateTTS_found:
  assumes "getUser w userId = Inr (Some u)"
  shows "generateTTS w txt userId options st =
     (case forceCypherGroq w txt u options st of
        (Some r, st') \<Rightarrow> (Inr r, st')
      | (None, st') \<Rightarrow> afterOverride w txt u options st')"
proof (cases "forceCypherGroq w txt u options st")
  case (Pair res st')
  show ?thesis
  proof (cases res)
    case None
    obtain r st'' where "afterOverride w txt u options st' = (Inr r, st'')"
      using afterOverride_resolves by blast
    with assms Pair None show ?thesis by (simp add: generateTTS_def generateTTS_try_def)
  next
    case (Some r)
    with assms Pair show ?thesis by (simp add: generateTTS_def generateTTS_try_def)
  qed
qed

subsection \<open>The log of calls only grows\<close>

lemma grows_refl: "grows st st"
  by (simp add: grows_def)

lemma grows_trans: "grows st st' \<Longrightarrow> grows st' st'' \<Longrightarrow> grows st st''"
  by (auto simp: grows_def)

lemma grows_use_vendor: "grows st (snd (use_vendor w v k txt cid opts st))"
  by (simp add: grows_def snd_use_vendor)

lemma grows_first_return:
  "(\<And>b st. b \<in> set bs \<Longrightarrow> grows st (snd (b st))) \<Longrightarrow> grows st (snd (first_return bs st))"
proof (induction bs arbitrary: st)
  case Nil
  then show ?case by (simp add: grows_refl)
next
  case (Cons b bs)
  have b: "grows st (snd (b st))" using Cons.prems by simp
  show ?case
  proof (cases "b st")
    case (Pair res st')
    show ?thesis
    proof (cases res)
      case None
      have "grows st' (snd (first_return bs st'))" using Cons by simp
      with b Pair None show ?thesis by (auto intro: grows_trans)
    next
      case (Some r)
      with b Pair show ?thesis by simp
    qed
  qed
qed

lemma grows_system:
  "grows st (snd (systemMyShell w txt options st))"
  "grows st (snd (systemElevenLabs w txt options st))"
  "grows st (snd (systemGroq w txt options st))"
  "grows st (snd (systemOpenAI w txt options st))"
  by (simp_all add: systemMyShell_def systemElevenLabs_def systemGroq_def systemOpenAI_def
      use_vendor_eqs grows_use_vendor grows_refl split: option.splits)

lemma grows_prefer:
  "grows st (snd (preferMyShell w txt u p options st))"
  "grows st (snd (preferOpenAI w txt u p options st))"
  "grows st (snd (preferGroq w txt u p options st))"
  "grows st (snd (preferElevenLabs w txt u p options st))"
  by (simp_all add: preferMyShell_def preferOpenAI_def preferGroq_def preferElevenLabs_def
      use_vendor_eqs grows_use_vendor grows_refl split: option.splits)

lemma grows_useSystemTTS: "grows st (snd (useSystemTTS w txt options st))"
proof -
  have "grows st (snd (first_return [systemMyShell w txt options, systemElevenLabs w txt options,
              systemGroq w txt options, systemOpenAI w txt options] st))"
    by (rule grows_first_return) (auto simp: grows_system)
  then show ?thesis by (auto simp: useSystemTTS_def split: prod.splits option.splits)
qed

lemma grows_preferencePhase: "grows st (snd (preferencePhase w txt u options st))"
  unfolding preferencePhase_def Let_def
  by (rule grows_first_return) (auto simp: grows_prefer)

lemma grows_afterOverride: "grows st (snd (afterOverride w txt u options st))"
proof (cases "preferencePhase w txt u options st")
  case (Pair res st')
  with grows_preferencePhase [of st w "txt" u options] have g: "grows st st'" by simp
  show ?thesis
  proof (cases res)
    case None
    with Pair g grows_useSystemTTS [of st' w "txt" options] show ?thesis
      by (auto simp: afterOverride_def intro: grows_trans)
  next
    case (Some r)
    with Pair g show ?thesis by (simp add: afterOverride_def)
  qed
qed

subsection \<open>Every operation keeps the caches in order\<close>

lemma cache_ok_first_return:
  assumes "\<And>b s. b \<in> set bs \<Longrightarrow> cache_ok s \<Longrightarrow> cache_ok (snd (b s))" and "cache_ok st"
  shows "cache_ok (snd (first_return bs st))"
  using assms
proof (induction bs arbitrary: st)
  case Nil
  then show ?case by simp
next
  case (Cons b bs)
  have b: "cache_ok (snd (b st))" using Cons.prems by simp
  show ?case
  proof (cases "b st")
    case (Pair res st')
    with b have ok: "cache_ok st'" by simp
    show ?thesis
    proof (cases res)
      case None
      have "cache_ok (snd (first_return bs st'))"
        using Cons.prems(1) ok by (intro Cons.IH) simp_all
      with Pair None show ?thesis by simp
    next
      case (Some r)
      with Pair ok show ?thesis by simp
    qed
  qed
qed

lemma cache_ok_blocks:
  assumes "cache_ok st"
  shows "cache_ok (snd (forceCypherGroq w txt u options st))"
    and "cache_ok (snd (preferMyShell w txt u p options st))"
    and "cache_ok (snd (preferOpenAI w txt u p options st))"
    and "cache_ok (snd (preferGroq w txt u p options st))"
    and "cache_ok (snd (preferElevenLabs w txt u p options st))"
    and "cache_ok (snd (systemMyShell w txt options st))"
    and "cache_ok (snd (systemElevenLabs w txt options st))"
    and "cache_ok (snd (systemGroq w txt options st))"
    and "cache_ok (snd (systemOpenAI w txt options st))"
  using assms
  by (simp_all add: forceCypherGroq_def preferMyShell_def preferOpenAI_def preferGroq_def
      preferElevenLabs_def systemMyShell_def systemElevenLabs_def systemGroq_def systemOpenAI_def
      use_vendor_eqs cache_ok_use_vendor split: option.splits)

lemma cache_ok_useSystemTTS:
  assumes "cache_ok st"
  shows "cache_ok (snd (useSystemTTS w txt options st))"
proof -
  have "cache_ok (snd (first_return [systemMyShell w txt options, systemElevenLabs w txt options,
              systemGroq w txt options, systemOpenAI w txt options] st))"
    by (rule cache_ok_first_return [OF _ assms]) (auto simp: cache_ok_blocks)
  then show ?thesis by (auto simp: useSystemTTS_def split: prod.splits option.splits)
qed

lemma cache_ok_preferencePhase:
  assumes "cache_ok st"
  shows "cache_ok (snd (preferencePhase w txt u options st))"
  unfolding preferencePhase_def Let_def
  by (rule cache_ok_first_return [OF _ assms]) (auto simp: cache_ok_blocks)

lemma cache_ok_afterOverride:
  assumes "cache_ok st"
  shows "cache_ok (snd (afterOverride w txt u options st))"
proof (cases "preferencePhase w txt u options st")
  case (Pair res st')
  with cache_ok_preferencePhase [OF assms, of w "txt" u options] have ok: "cache_ok st'" by simp
  show ?thesis
  proof (cases res)
    case None
    with Pair cache_ok_useSystemTTS [OF ok, of w "txt" options] show ?thesis
      by (simp add: afterOverride_def)
  next
    case (Some r)
    with Pair ok show ?thesis by (simp add: afterOverride_def)
  qed
qed

lemma cache_ok_generateTTS:
  assumes "cache_ok st"
  shows "cache_ok (snd (generateTTS w txt userId options st))"
proof (cases rule: getUser_cases [of w userId])
  case (rejects e)
  with assms show ?thesis by (simp add: generateTTS_def generateTTS_try_def)
next
  case absent
  with assms show ?thesis by (simp add: generateTTS_def generateTTS_try_def)
next
  case (found u)
  show ?thesis
  proof (cases "forceCypherGroq w txt u options st")
    case (Pair res st')
    with cache_ok_blocks(1) [OF assms, of w "txt" u options] have ok: "cache_ok st'" by simp
    show ?thesis
    proof (cases res)
      case None
      with Pair cache_ok_afterOverride [OF ok, of w "txt" u options] show ?thesis
        by (simp add: generateTTS_found [OF found])
    next
      case (Some r)
      with Pair ok show ?thesis by (simp add: generateTTS_found [OF \<open>getUser w userId = Inr (Some u)\<close>])
    qed
  qed
qed

lemma cache_ok_instance_testConnection:
  "cache_ok st \<Longrightarrow> cache_ok (snd (instance_testConnection w i st))"
  by (simp add: instance_testConnection_def Let_def cache_ok_calls_update)

lemma cache_ok_test_after_getter:
  assumes "cache_ok st"
  shows "cache_ok (snd (let (i, st1) = getInstance v k c st in instance_testConnection w i st1))"
  using cache_ok_getInstance [OF assms, of v k c]
  by (cases "getInstance v k c st") (simp add: cache_ok_instance_testConnection)

lemma cache_ok_testOpenAI:
  assumes "cache_ok st"
  shows "cache_ok (snd (testOpenAI w k st))"
proof (cases "getOpenAIInstance k st")
  case (Pair i st1)
  with cache_ok_getInstance [OF assms, of OpenAI k False] have "cache_ok st1"
    by (simp add: getInstance_def)
  then have "cache_ok (snd (instance_generateTTS w i (js ''Test'') (js ''test'') no_options st1))"
    by (simp add: snd_instance_generateTTS cache_ok_calls_update)
  then show ?thesis
    by (cases "instance_generateTTS w i (js ''Test'') (js ''test'') no_options st1")
       (auto simp: testOpenAI_def Pair split: sum.splits)
qed

lemma cache_ok_testUserAPIKey:
  assumes "cache_ok st"
  shows "cache_ok (snd (testUserAPIKey w userId s st))"
proof (cases rule: getUser_cases [of w userId])
  case (rejects e)
  with assms show ?thesis by (simp add: testUserAPIKey_def)
next
  case absent
  with assms show ?thesis by (simp add: testUserAPIKey_def)
next
  case (found u)
  have "cache_ok (snd (testUserAPIKey_try w u s st))"
    using assms cache_ok_testOpenAI [OF assms]
      cache_ok_test_after_getter [OF assms, of Groq _ False]
      cache_ok_test_after_getter [OF assms, of ElevenLabs _ False]
      cache_ok_test_after_getter [OF assms, of MyShell _ True]
    by (simp add: testUserAPIKey_try_def getInstance_def split: option.splits)
  then show ?thesis
    using found
    by (cases "testUserAPIKey_try w u s st")
       (auto simp: testUserAPIKey_def split: sum.splits)
qed

lemma cache_ok_engine_call: "cache_ok st \<Longrightarrow> cache_ok (snd (engine_call w e txt cid st))"
  by (simp add: engine_call_def cache_ok_calls_update)

lemma cache_ok_useSystemTTS_early:
  assumes "cache_ok st"
  shows "cache_ok (snd (useSystemTTS_early w txt options st))"
proof (cases "engine_call w Bark txt (characterId options) st")
  case (Pair res st1)
  with cache_ok_engine_call [OF assms, of w Bark "txt" "characterId options"]
  have ok: "cache_ok st1" by simp
  show ?thesis
  proof (cases res)
    case (Inl e)
    with Pair cache_ok_engine_call [OF ok, of w Typecast "txt" "characterId options"]
    show ?thesis
      by (cases "engine_call w Typecast txt (characterId options) st1")
         (auto simp: useSystemTTS_early_def split: sum.splits)
  next
    case (Inr r)
    with Pair ok show ?thesis by (simp add: useSystemTTS_early_def)
  qed
qed

lemma cache_ok_prefer_early:
  assumes "cache_ok st"
  shows "cache_ok (snd (preferOpenAI_early w txt u p options st))"
    and "cache_ok (snd (preferGroq_early w txt u p options st))"
proof -
  show "cache_ok (snd (preferOpenAI_early w txt u p options st))"
  proof (cases "p = js ''openai''")
    case True
    with assms show ?thesis
      by (simp add: prefer_early_eqs cache_ok_use_vendor split: option.splits)
  next
    case False
    with assms show ?thesis by (simp add: prefer_skips)
  qed
  show "cache_ok (snd (preferGroq_early w txt u p options st))"
  proof (cases "p = js ''groq''")
    case True
    with assms show ?thesis
      by (simp add: prefer_early_eqs cache_ok_use_vendor split: option.splits)
  next
    case False
    with assms show ?thesis by (simp add: prefer_skips)
  qed
qed

lemma cache_ok_generateTTS_early:
  assumes "cache_ok st"
  shows "cache_ok (snd (generateTTS_early w txt userId options st))"
proof (cases rule: getUser_cases [of w userId])
  case (rejects e)
  with assms show ?thesis by (simp add: generateTTS_early_def generateTTS_try_early_def)
next
  case absent
  with assms show ?thesis by (simp add: generateTTS_early_def generateTTS_try_early_def)
next
  case (found u)
  have p: "cache_ok (snd (preferencePhase_early w txt u options st))"
    unfolding preferencePhase_early_def Let_def
    by (rule cache_ok_first_return [OF _ assms]) (auto simp: cache_ok_prefer_early)
  show ?thesis
  proof (cases "preferencePhase_early w txt u options st")
    case (Pair res st')
    with p have ok: "cache_ok st'" by simp
    show ?thesis
    proof (cases res)
      case None
      with Pair found cache_ok_useSystemTTS_early [OF ok, of w "txt" options] show ?thesis
        by (cases "useSystemTTS_early w txt options st'")
           (auto simp: generateTTS_early_def generateTTS_try_early_def split: sum.splits)
    next
      case (Some r)
      with Pair ok \<open>getUser w userId = Inr (Some u)\<close> show ?thesis
        by (simp add: generateTTS_early_def generateTTS_try_early_def)
    qed
  qed
qed

lemma cache_ok_testUserAPIKey_early:
  assumes "cache_ok st"
  shows "cache_ok (snd (testUserAPIKey_early w userId s st))"
proof (cases rule: getUser_cases [of w userId])
  case (rejects e)
  with assms show ?thesis by (simp add: testUserAPIKey_early_def)
next
  case absent
  with assms show ?thesis by (simp add: testUserAPIKey_early_def)
next
  case (found u)
  have "cache_ok (snd (testUserAPIKey_try_early w u s st))"
    using assms cache_ok_testOpenAI [OF assms]
      cache_ok_test_after_getter [OF assms, of Groq _ False]
    by (simp add: testUserAPIKey_try_early_def getInstance_def split: option.splits)
  then show ?thesis
    using found
    by (cases "testUserAPIKey_try_early w u s st")
       (auto simp: testUserAPIKey_early_def split: sum.splits)
qed

subsection \<open>Evaluating the concrete worlds\<close>

lemmas world_defs =
  answering_world_def failing_world_def keyless_world_def no_keys_def no_env_def cypher_def
  silk_def prefers_groq_with_key_def prefers_openai_with_keys_def prefers_openai_without_key_def

lemmas run_defs =
  generateTTS_def generateTTS_try_def afterOverride_def preferencePhase_def forceCypherGroq_def
  preferMyShell_def preferOpenAI_def preferGroq_def preferElevenLabs_def useSystemTTS_def
  systemMyShell_def systemElevenLabs_def systemGroq_def systemOpenAI_def
  useMyShell_def useOpenAI_def useGroq_def useElevenLabs_def attempt_def
  instance_generateTTS_def passed_options_def emptyAudio_def
  getOpenAIInstance_def getGroqInstance_def getElevenLabsInstance_def getMyShellInstance_def
  construct_def createOpenAITTS_def createGroqTTS_def createElevenLabsTTS_def
  createMyShellTTS_def new_manager_def or_else_def or_string_def Let_def

lemmas early_defs =
  generateTTS_early_def generateTTS_try_early_def preferencePhase_early_def
  preferOpenAI_early_def preferGroq_early_def useSystemTTS_early_def engine_call_def
  passed_options_early_def

lemma getUser_u1: "getUser answering_world (js ''u1'') = Inr (Some no_keys)"
  by (simp add: answering_world_def)

lemma getUser_u2:
  "getUser answering_world (js ''u2'') =
     Inr (Some prefers_openai_with_keys)"
  by (simp add: answering_world_def js_def)

lemma every_call_throws_failing_world: "every_call_throws failing_world"
  by (simp add: every_call_throws_def failing_world_def)

subsection \<open>generateTTS never throws\<close>

lemma GroqTTSService_generateTTS_throws:
  "isl (sdk now k \<lparr>input = cleanText t c,
      speed = Some (calculateDynamicSpeed c (voiceStyle opts) (speedMultiplier opts))\<rparr>) \<Longrightarrow>
   isl (GroqTTSService_generateTTS sdk now k t c opts)"
  by (auto simp: GroqTTSService_generateTTS_def Let_def split: sum.splits)

lemma instance_generateTTS_throws:
  "every_call_throws w \<Longrightarrow> isl (fst (instance_generateTTS w i t c opts st))"
  by (simp add: instance_generateTTS_def Let_def every_call_throws_def
      GroqTTSService_generateTTS_throws)

lemma attempt_throws: "isl (fst x) \<Longrightarrow> fst (attempt x) = None"
  by (cases x) (auto simp: attempt_def split: sum.splits)

lemma use_throws:
  assumes "every_call_throws w"
  shows "fst (useMyShell w k t opts st) = None"
    and "fst (useOpenAI w k t opts st) = None"
    and "fst (useGroq w k t opts st) = None"
    and "fst (useElevenLabs w k t opts st) = None"
  using assms
  by (auto simp: useMyShell_def useOpenAI_def useGroq_def useElevenLabs_def
      intro!: attempt_throws instance_generateTTS_throws split: prod.splits)

lemma first_return_None:
  "(\<And>b st. b \<in> set bs \<Longrightarrow> fst (b st) = None) \<Longrightarrow> fst (first_return bs st) = None"
proof (induction bs arbitrary: st)
  case Nil
  then show ?case by simp
next
  case (Cons b bs)
  have "fst (b st) = None" using Cons.prems by simp
  then obtain st' where b: "b st = (None, st')" by (cases "b st") auto
  have "fst (first_return bs st') = None" using Cons by simp
  with b show ?case by simp
qed

lemma system_throws:
  assumes "every_call_throws w"
  shows "fst (systemMyShell w t opts st) = None"
    and "fst (systemElevenLabs w t opts st) = None"
    and "fst (systemGroq w t opts st) = None"
    and "fst (systemOpenAI w t opts st) = None"
  using assms
  by (auto simp: systemMyShell_def systemElevenLabs_def systemGroq_def systemOpenAI_def use_throws
      split: option.splits)

lemma useSystemTTS_throws:
  assumes "every_call_throws w"
  shows "fst (useSystemTTS w t opts st) = Inr (emptyAudio t)"
proof -
  have "fst (first_return [systemMyShell w t opts, systemElevenLabs w t opts,
              systemGroq w t opts, systemOpenAI w t opts] st) = None"
    by (rule first_return_None) (auto simp: system_throws [OF assms])
  then show ?thesis
    by (auto simp: useSystemTTS_def split: prod.splits option.splits)
qed

lemma prefer_throws:
  assumes "every_call_throws w"
  shows "fst (forceCypherGroq w t u opts st) = None"
    and "fst (preferMyShell w t u p opts st) = None"
    and "fst (preferOpenAI w t u p opts st) = None"
    and "fst (preferGroq w t u p opts st) = None"
    and "fst (preferElevenLabs w t u p opts st) = None"
  using assms
  by (auto simp: forceCypherGroq_def preferMyShell_def preferOpenAI_def preferGroq_def
      preferElevenLabs_def use_throws split: option.splits)

lemma preferencePhase_throws:
  assumes "every_call_throws w"
  shows "fst (preferencePhase w t u opts st) = None"
  unfolding preferencePhase_def Let_def
  by (rule first_return_None) (auto simp: prefer_throws [OF assms])

lemma generateTTS_throws:
  assumes "every_call_throws w"
  shows "fst (generateTTS w t uid opts st) = Inr (emptyAudio t)"
proof (cases rule: getUser_cases [of w uid])
  case (rejects e)
  then show ?thesis by (simp add: generateTTS_def generateTTS_try_def)
next
  case absent
  then show ?thesis by (simp add: generateTTS_def generateTTS_try_def)
next
  case (found u)
  obtain st1 where f: "forceCypherGroq w t u opts st = (None, st1)"
    using prefer_throws(1) [OF assms, of t u opts st] by (cases "forceCypherGroq w t u opts st") auto
  obtain st2 where p: "preferencePhase w t u opts st1 = (None, st2)"
    using preferencePhase_throws [OF assms, of t u opts st1]
    by (cases "preferencePhase w t u opts st1") auto
  have "fst (useSystemTTS w t opts st2) = Inr (emptyAudio t)"
    by (rule useSystemTTS_throws [OF assms])
  then show ?thesis
    using found f p
    by (cases "useSystemTTS w t opts st2")
       (auto simp: generateTTS_def generateTTS_try_def afterOverride_def)
qed

lemma engine_call_throws: "every_call_throws w \<Longrightarrow> isl (fst (engine_call w e t c st))"
  by (simp add: engine_call_def every_call_throws_def)

lemma useSystemTTS_early_throws:
  assumes "every_call_throws w"
  shows "fst (useSystemTTS_early w t opts st) = Inr (emptyAudio t)"
  using engine_call_throws [OF assms]
  by (auto simp: useSystemTTS_early_def split: prod.splits sum.splits)
     (metis fst_conv sum.disc(2))+

lemma prefer_early_throws:
  assumes "every_call_throws w"
  shows "fst (preferOpenAI_early w t u p opts st) = None"
    and "fst (preferGroq_early w t u p opts st) = None"
  using assms
  by (auto simp: preferOpenAI_early_def preferGroq_early_def
      intro!: attempt_throws instance_generateTTS_throws split: option.splits prod.splits)

lemma preferencePhase_early_throws:
  assumes "every_call_throws w"
  shows "fst (preferencePhase_early w t u opts st) = None"
  unfolding preferencePhase_early_def Let_def
  by (rule first_return_None) (auto simp: prefer_early_throws [OF assms])

lemma generateTTS_early_throws:
  assumes "every_call_throws w"
  shows "fst (generateTTS_early w t uid opts st) = Inr (emptyAudio t)"
proof (cases rule: getUser_cases [of w uid])
  case (rejects e)
  then show ?thesis by (simp add: generateTTS_early_def generateTTS_try_early_def)
next
  case absent
  then show ?thesis by (simp add: generateTTS_early_def generateTTS_try_early_def)
next
  case (found u)
  obtain st2 where p: "preferencePhase_early w t u opts st = (None, st2)"
    using preferencePhase_early_throws [OF assms, of t u opts st]
    by (cases "preferencePhase_early w t u opts st") auto
  have "fst (useSystemTTS_early w t opts st2) = Inr (emptyAudio t)"
    by (rule useSystemTTS_early_throws [OF assms])
  then show ?thesis
    using found p
    by (cases "useSystemTTS_early w t opts st2")
       (auto simp: generateTTS_early_def generateTTS_try_early_def)
qed

text \<open>
  Claim C1. For every text, user id and options, in every state, whatever the storage
  answers (the lookup rejecting, or resolving to a user record or to nothing), whatever keys
  exist and whatever the vendors answer (each call throwing or returning), \<open>generateTTS\<close>
  resolves to a result and never throws, in the later and in the early variant. When the
  lookup rejects, when the user record is absent, and when every vendor call throws, the
  result is the empty audio \<open>{audioUrl: "", duration: floor(text.length / 15)}\<close>.
\<close>

theorem generateTTS_always_resolves:
  "(\<exists>r st'. generateTTS w txt userId options st = (Inr r, st')) \<and>
   (\<exists>r st'. generateTTS_early w txt userId options st = (Inr r, st')) \<and>
   (isl (getUser w userId) \<or> getUser w userId = Inr None \<or> every_call_throws w \<longrightarrow>
      fst (generateTTS w txt userId options st) =
        Inr \<lparr>audioUrl = [], duration = length txt div 15\<rparr> \<and>
      fst (generateTTS_early w txt userId options st) =
        Inr \<lparr>audioUrl = [], duration = length txt div 15\<rparr>)"
proof (intro conjI impI)
  show "\<exists>r st'. generateTTS w txt userId options st = (Inr r, st')"
    by (rule generateTTS_resolves)
  show "\<exists>r st'. generateTTS_early w txt userId options st = (Inr r, st')"
    by (rule generateTTS_early_resolves)
next
  assume "isl (getUser w userId) \<or> getUser w userId = Inr None \<or> every_call_throws w"
  then consider (rejects) e where "getUser w userId = Inl e"
    | (absent) "getUser w userId = Inr None" | (throws) "every_call_throws w"
    by (cases "getUser w userId") auto
  then show "fst (generateTTS w txt userId options st) =
      Inr \<lparr>audioUrl = [], duration = length txt div 15\<rparr>"
  proof cases
    case rejects
    then show ?thesis by (simp add: generateTTS_def generateTTS_try_def emptyAudio_def)
  next
    case absent
    then show ?thesis by (simp add: generateTTS_def generateTTS_try_def emptyAudio_def)
  next
    case throws
    then show ?thesis using generateTTS_throws by (simp add: emptyAudio_def)
  qed
next
  assume "isl (getUser w userId) \<or> getUser w userId = Inr None \<or> every_call_throws w"
  then consider (rejects) e where "getUser w userId = Inl e"
    | (absent) "getUser w userId = Inr None" | (throws) "every_call_throws w"
    by (cases "getUser w userId") auto
  then show "fst (generateTTS_early w txt userId options st) =
      Inr \<lparr>audioUrl = [], duration = length txt div 15\<rparr>"
  proof cases
    case rejects
    then show ?thesis
      by (simp add: generateTTS_early_def generateTTS_try_early_def emptyAudio_def)
  next
    case absent
    then show ?thesis
      by (simp add: generateTTS_early_def generateTTS_try_early_def emptyAudio_def)
  next
    case throws
    then show ?thesis using generateTTS_early_throws by (simp add: emptyAudio_def)
  qed
qed

theorem generateTTS_always_resolves_witness:
  "every_call_throws failing_world \<and>
   fst (generateTTS failing_world (js ''all vendors are down right now'') (js ''u1'') cypher new_manager) =
     Inr \<lparr>audioUrl = [], duration = 2\<rparr> \<and>
   fst (generateTTS_early failing_world (js ''all vendors are down right now'') (js ''u1'') cypher new_manager) =
     Inr \<lparr>audioUrl = [], duration = 2\<rparr> \<and>
   isl (getUser storage_down_world (js ''u1'')) \<and>
   fst (generateTTS storage_down_world (js ''all vendors are down right now'') (js ''u1'') cypher new_manager) =
     Inr \<lparr>audioUrl = [], duration = 2\<rparr> \<and>
   fst (generateTTS_early storage_down_world (js ''all vendors are down right now'') (js ''u1'') cypher new_manager) =
     Inr \<lparr>audioUrl = [], duration = 2\<rparr>"
proof -
  have d: "isl (getUser storage_down_world (js ''u1''))"
    by (simp add: storage_down_world_def)
  have "every_call_throws failing_world \<and>
      fst (generateTTS failing_world (js ''all vendors are down right now'') (js ''u1'') cypher new_manager) =
        Inr \<lparr>audioUrl = [], duration = 2\<rparr> \<and>
      fst (generateTTS_early failing_world (js ''all vendors are down right now'') (js ''u1'') cypher new_manager) =
        Inr \<lparr>audioUrl = [], duration = 2\<rparr>"
    using generateTTS_always_resolves [of failing_world "js ''all vendors are down right now''"
        "js ''u1''" cypher new_manager]
      every_call_throws_failing_world
    by (simp add: js_def)
  moreover have "fst (generateTTS storage_down_world (js ''all vendors are down right now'') (js ''u1'') cypher new_manager) =
        Inr \<lparr>audioUrl = [], duration = 2\<rparr> \<and>
      fst (generateTTS_early storage_down_world (js ''all vendors are down right now'') (js ''u1'') cypher new_manager) =
        Inr \<lparr>audioUrl = [], duration = 2\<rparr>"
    using generateTTS_always_resolves [of storage_down_world "js ''all vendors are down right now''"
        "js ''u1''" cypher new_manager] d
    by (simp add: js_def)
  ultimately show ?thesis using d by blast
qed

subsection \<open>The character override\<close>

lemma forceCypherGroq_first_call:
  assumes "characterId options = js ''cypher''"
    and "given (or_else (groqApiKey u) (GROQ_API_KEY (env w))) = Some k"
    and "cache_ok st"
    and that: "getUser w userId = Inr (Some u)"
  shows "\<exists>more. calls (snd (generateTTS_try w txt userId options st)) =
            calls st @ Synthesize Groq k # more"
proof -
  let ?f = "use_vendor w Groq k txt (characterId options) (passed_options options) st"
  have f: "forceCypherGroq w txt u options st = ?f"
    using assms by (simp add: forceCypherGroq_def use_vendor_eqs)
  have c: "calls (snd ?f) = calls st @ [Synthesize Groq k]"
    by (rule use_vendor_calls [OF assms(3)])
  show ?thesis
  proof (cases "fst ?f")
    case (Some r)
    then have "generateTTS_try w txt userId options st = (Inr r, snd ?f)"
      using that f by (cases ?f) (simp add: generateTTS_try_def)
    with c show ?thesis by simp
  next
    case None
    then have "generateTTS_try w txt userId options st = afterOverride w txt u options (snd ?f)"
      using that f by (cases ?f) (simp add: generateTTS_try_def)
    moreover obtain more where "calls (snd (afterOverride w txt u options (snd ?f))) = calls (snd ?f) @ more"
      using grows_afterOverride [of "snd ?f" w "txt" u options] by (auto simp: grows_def)
    ultimately show ?thesis using c by simp
  qed
qed

text \<open>
  Claim C2 (later variant). When the user exists and \<open>characterId\<close> is \<open>cypher\<close>, whatever
  the preferred service, from every state whose caches are in order: if the user stores a
  Groq key, or else the process has \<open>GROQ_API_KEY\<close>, the first call \<open>generateTTS\<close>
  makes is to Groq with that key, and when that call succeeds its result is returned; if
  there is neither key, \<open>generateTTS\<close> does what the preference phase followed by the
  system chain does, from the same state.
\<close>

theorem cypher_forces_groq:
  assumes "getUser w userId = Inr (Some u)" and "characterId options = js ''cypher''" and "cache_ok st"
  shows
    "(\<forall>k. (groqApiKey u = Some k \<or> \<not> truthy (groqApiKey u) \<and> GROQ_API_KEY (env w) = Some k) \<and> k \<noteq> [] \<longrightarrow>
        (\<exists>more. calls (snd (generateTTS w txt userId options st)) =
                  calls st @ Synthesize Groq k # more) \<and>
        (\<forall>r. fst (useGroq w k txt options st) = Some r \<longrightarrow>
             generateTTS w txt userId options st = (Inr r, snd (useGroq w k txt options st)))) \<and>
     (\<not> truthy (groqApiKey u) \<and> \<not> truthy (GROQ_API_KEY (env w)) \<longrightarrow>
        generateTTS w txt userId options st = afterOverride w txt u options st)"
proof (intro conjI allI impI)
  fix k
  assume a: "(groqApiKey u = Some k \<or> \<not> truthy (groqApiKey u) \<and> GROQ_API_KEY (env w) = Some k) \<and> k \<noteq> []"
  then have g: "given (or_else (groqApiKey u) (GROQ_API_KEY (env w))) = Some k"
    by (auto simp: given_or_else given_None_iff [symmetric] split: option.splits)
  from forceCypherGroq_first_call [OF assms(2) g assms(3) assms(1)]
  show "\<exists>more. calls (snd (generateTTS w txt userId options st)) =
                  calls st @ Synthesize Groq k # more"
    by (simp add: snd_generateTTS)
  fix r
  assume "fst (useGroq w k txt options st) = Some r"
  then show "generateTTS w txt userId options st = (Inr r, snd (useGroq w k txt options st))"
    using g assms(2)
    by (cases "useGroq w k txt options st")
       (simp add: generateTTS_found [OF assms(1)] forceCypherGroq_def)
next
  assume "\<not> truthy (groqApiKey u) \<and> \<not> truthy (GROQ_API_KEY (env w))"
  then have "given (or_else (groqApiKey u) (GROQ_API_KEY (env w))) = None"
    by (simp add: given_or_else given_None_iff split: option.splits)
  then show "generateTTS w txt userId options st = afterOverride w txt u options st"
    by (simp add: generateTTS_found [OF assms(1)] forceCypherGroq_def)
qed

theorem cypher_forces_groq_witness:
  "getUser answering_world (js ''u2'') =
     Inr (Some prefers_openai_with_keys) \<and>
   characterId cypher = js ''cypher'' \<and> cache_ok new_manager \<and>
   (\<exists>more. calls (snd (generateTTS answering_world (js ''yo'') (js ''u2'') cypher new_manager)) =
      Synthesize Groq (js ''gsk_user'') # more)"
proof -
  have c: "characterId cypher = js ''cypher''" by (simp add: cypher_def)
  have e: "calls new_manager = []" by (simp add: new_manager_def)
  have k: "groqApiKey prefers_openai_with_keys = Some (js ''gsk_user'')"
    "js ''gsk_user'' \<noteq> []"
    by (simp_all add: prefers_openai_with_keys_def no_keys_def js_def)
  from cypher_forces_groq [OF getUser_u2 c cache_ok_new, of "js ''yo''"] k
  have "\<exists>more. calls (snd (generateTTS answering_world (js ''yo'') (js ''u2'') cypher new_manager)) =
      calls new_manager @ Synthesize Groq (js ''gsk_user'') # more"
    by blast
  with getUser_u2 c cache_ok_new e show ?thesis by simp
qed

text \<open>
  The claim as stated fails for the early variant, which has no block for the character:
  for \<open>cypher\<close> and a user who prefers OpenAI and stores keys for OpenAI and Groq, the
  only call is to OpenAI.
\<close>

theorem early_variant_has_no_override:
  "getUser answering_world (js ''u2'') =
     Inr (Some prefers_openai_with_keys) \<and>
   characterId cypher = js ''cypher'' \<and>
   calls (snd (generateTTS_early answering_world (js ''yo'') (js ''u2'') cypher new_manager)) =
     [Synthesize OpenAI (js ''sk_user'')]"
proof -
  have "calls (snd (generateTTS_early answering_world (js ''yo'') (js ''u2'') cypher new_manager)) =
     [Synthesize OpenAI (js ''sk_user'')]"
    by (simp add: early_defs run_defs world_defs js_def)
  moreover have "characterId cypher = js ''cypher''" by (simp add: cypher_def)
  ultimately show ?thesis using getUser_u2 by simp
qed

subsection \<open>No key anywhere\<close>

text \<open>
  Claim C3. For every text, when the user exists and stores no truthy API key for any
  vendor, and none of \<open>MYSHELL_API_KEY\<close>, \<open>ELEVENLABS_API_KEY\<close>, \<open>GROQ_API_KEY\<close> and
  \<open>OPENAI_API_KEY\<close> is set to a non-empty string, \<open>generateTTS\<close> returns exactly
  \<open>{audioUrl: "", duration: floor(text.length / 15)}\<close> and leaves the manager as it
  was: no client is constructed and none is called.
\<close>

theorem no_keys_gives_empty_audio:
  assumes "getUser w userId = Inr (Some u)"
    and "\<not> truthy (openaiApiKey u)" and "\<not> truthy (groqApiKey u)"
    and "\<not> truthy (elevenlabsApiKey u)" and "\<not> truthy (myshellApiKey u)"
    and "\<not> truthy (MYSHELL_API_KEY (env w))" and "\<not> truthy (ELEVENLABS_API_KEY (env w))"
    and "\<not> truthy (GROQ_API_KEY (env w))" and "\<not> truthy (OPENAI_API_KEY (env w))"
  shows "generateTTS w txt userId options st =
           (Inr \<lparr>audioUrl = [], duration = length txt div 15\<rparr>, st)"
proof -
  have none: "given (openaiApiKey u) = None"
    "given (or_else (groqApiKey u) (GROQ_API_KEY (env w))) = None"
    "given (or_else (elevenlabsApiKey u) (ELEVENLABS_API_KEY (env w))) = None"
    "given (or_else (myshellApiKey u) (MYSHELL_API_KEY (env w))) = None"
    "given (MYSHELL_API_KEY (env w)) = None" "given (ELEVENLABS_API_KEY (env w)) = None"
    "given (GROQ_API_KEY (env w)) = None" "given (OPENAI_API_KEY (env w)) = None"
    using assms(2-9) [THEN given_None_iff [THEN iffD2]] by (simp_all add: given_or_else)
  have force: "forceCypherGroq w txt u options st = (None, st)"
    by (simp add: forceCypherGroq_def none)
  have phase: "preferencePhase w txt u options st = (None, st)"
    by (simp add: preferencePhase_def Let_def preferMyShell_def preferOpenAI_def preferGroq_def
        preferElevenLabs_def none)
  have chain: "useSystemTTS w txt options st = (Inr (emptyAudio txt), st)"
    by (simp add: useSystemTTS_def systemMyShell_def systemElevenLabs_def systemGroq_def
        systemOpenAI_def none)
  show ?thesis
    by (simp add: generateTTS_found [OF assms(1)] force afterOverride_def phase chain
        emptyAudio_def)
qed

theorem no_keys_gives_empty_audio_witness:
  "getUser keyless_world (js ''u1'') = Inr (Some no_keys) \<and>
   \<not> truthy (openaiApiKey no_keys) \<and> \<not> truthy (groqApiKey no_keys) \<and>
   \<not> truthy (elevenlabsApiKey no_keys) \<and> \<not> truthy (myshellApiKey no_keys) \<and>
   \<not> truthy (MYSHELL_API_KEY (env keyless_world)) \<and>
   \<not> truthy (ELEVENLABS_API_KEY (env keyless_world)) \<and>
   \<not> truthy (GROQ_API_KEY (env keyless_world)) \<and>
   \<not> truthy (OPENAI_API_KEY (env keyless_world)) \<and>
   generateTTS keyless_world (js ''sixteen units ok'') (js ''u1'') cypher new_manager =
     (Inr \<lparr>audioUrl = [], duration = 1\<rparr>, new_manager)"
proof -
  have u: "getUser keyless_world (js ''u1'') = Inr (Some no_keys)"
    by (simp add: keyless_world_def)
  have k: "\<not> truthy (openaiApiKey no_keys)" "\<not> truthy (groqApiKey no_keys)"
    "\<not> truthy (elevenlabsApiKey no_keys)" "\<not> truthy (myshellApiKey no_keys)"
    by (simp_all add: no_keys_def)
  have e: "\<not> truthy (MYSHELL_API_KEY (env keyless_world))"
    "\<not> truthy (ELEVENLABS_API_KEY (env keyless_world))"
    "\<not> truthy (GROQ_API_KEY (env keyless_world))"
    "\<not> truthy (OPENAI_API_KEY (env keyless_world))"
    by (simp_all add: keyless_world_def no_env_def)
  from no_keys_gives_empty_audio [OF u k e, of "js ''sixteen units ok''" cypher new_manager]
  have "generateTTS keyless_world (js ''sixteen units ok'') (js ''u1'') cypher new_manager =
     (Inr \<lparr>audioUrl = [], duration = 1\<rparr>, new_manager)"
    by (simp add: js_def)
  with u k e show ?thesis by blast
qed

subsection \<open>The preference phase\<close>

lemma preferencePhase_credential:
  "preferencePhase w txt u options st =
     (case preferred_credential (env w) u of
        None \<Rightarrow> (None, st)
      | Some (v, k) \<Rightarrow> use_vendor w v k txt (characterId options) (passed_options options) st)"
proof -
  let ?p = "or_string (preferredTtsService u) (js ''myshell'')"
  consider "?p = js ''myshell''" | "?p = js ''openai''" | "?p = js ''groq''"
    | "?p = js ''elevenlabs''"
    | "?p \<noteq> js ''myshell''" "?p \<noteq> js ''openai''" "?p \<noteq> js ''groq''" "?p \<noteq> js ''elevenlabs''"
    by blast
  then show ?thesis
  proof cases
    case 1
    have "preferencePhase w txt u options st = preferMyShell w txt u ?p options st"
      unfolding preferencePhase_def Let_def
      by (rule first_return_then_skips) (auto simp: 1 prefer_skips service_names_distinct)
    then show ?thesis
      by (simp add: 1 preferred_credential_def preferMyShell_def use_vendor_eqs
          split: option.splits)
  next
    case 2
    have "preferencePhase w txt u options st =
        first_return [preferOpenAI w txt u ?p options, preferGroq w txt u ?p options,
          preferElevenLabs w txt u ?p options] st"
      by (simp add: preferencePhase_def Let_def 2 prefer_skips service_names_distinct [symmetric])
    also have "\<dots> = preferOpenAI w txt u ?p options st"
      by (rule first_return_then_skips) (auto simp: 2 prefer_skips service_names_distinct)
    finally show ?thesis
      by (simp add: 2 preferred_credential_def preferOpenAI_def use_vendor_eqs
          service_names_distinct [symmetric] split: option.splits)
  next
    case 3
    have "preferencePhase w txt u options st =
        first_return [preferGroq w txt u ?p options, preferElevenLabs w txt u ?p options] st"
      by (simp add: preferencePhase_def Let_def 3 prefer_skips service_names_distinct [symmetric])
    also have "\<dots> = preferGroq w txt u ?p options st"
      by (rule first_return_then_skips) (auto simp: 3 prefer_skips service_names_distinct)
    finally show ?thesis
      by (simp add: 3 preferred_credential_def preferGroq_def use_vendor_eqs
          service_names_distinct [symmetric] split: option.splits)
  next
    case 4
    have "preferencePhase w txt u options st =
        first_return [preferElevenLabs w txt u ?p options] st"
      by (simp add: preferencePhase_def Let_def 4 prefer_skips service_names_distinct [symmetric])
    also have "\<dots> = preferElevenLabs w txt u ?p options st"
      by (rule first_return_then_skips) simp
    finally show ?thesis
      by (simp add: 4 preferred_credential_def preferElevenLabs_def use_vendor_eqs
          service_names_distinct [symmetric] split: option.splits)
  next
    case 5
    then show ?thesis
      by (simp add: preferencePhase_def Let_def preferred_credential_def prefer_skips)
  qed
qed

lemma preferencePhase_early_credential:
  "preferencePhase_early w txt u options st =
     (case preferred_credential_early u of
        None \<Rightarrow> (None, st)
      | Some (v, k) \<Rightarrow>
          use_vendor w v k txt (characterId options) (passed_options_early options) st)"
proof -
  let ?p = "or_string (preferredTtsService u) (js ''system'')"
  consider "?p = js ''openai''" | "?p = js ''groq''" | "?p \<noteq> js ''openai''" "?p \<noteq> js ''groq''"
    by blast
  then show ?thesis
  proof cases
    case 1
    have "preferencePhase_early w txt u options st = preferOpenAI_early w txt u ?p options st"
      unfolding preferencePhase_early_def Let_def
      by (rule first_return_then_skips) (auto simp: 1 prefer_skips service_names_distinct)
    then show ?thesis
      by (simp add: 1 preferred_credential_early_def prefer_early_eqs split: option.splits)
  next
    case 2
    have "preferencePhase_early w txt u options st =
        first_return [preferGroq_early w txt u ?p options] st"
      by (simp add: preferencePhase_early_def Let_def 2 prefer_skips service_names_distinct [symmetric])
    also have "\<dots> = preferGroq_early w txt u ?p options st"
      by (rule first_return_then_skips) simp
    finally show ?thesis
      by (simp add: 2 preferred_credential_early_def prefer_early_eqs
          service_names_distinct [symmetric] split: option.splits)
  next
    case 3
    then show ?thesis
      by (simp add: preferencePhase_early_def Let_def preferred_credential_early_def prefer_skips)
  qed
qed

text \<open>
  Claim C4, as the code has it. In the preference phase of the later variant, MyShell (the
  preference when none is stored), Groq and ElevenLabs are attempted with the user's key
  when present and otherwise with the process-wide key of that same vendor; OpenAI is
  attempted with the user's key only (the process-wide \<open>OPENAI_API_KEY\<close> is read by the
  system chain alone); for any other preference, and when no such key exists, the phase
  is skipped and the state is as it was. In the early variant OpenAI and Groq are
  attempted with the user's key only. An attempt is one call to the vendor with that key;
  when it throws, the phase yields nothing and \<open>generateTTS\<close> goes on with the system
  chain, which always resolves to a result.
\<close>

theorem preference_phase_credential:
  "preferencePhase w txt u options st =
     (case preferred_credential (env w) u of
        None \<Rightarrow> (None, st)
      | Some (v, k) \<Rightarrow> use_vendor w v k txt (characterId options) (passed_options options) st) \<and>
   preferencePhase_early w txt u options st =
     (case preferred_credential_early u of
        None \<Rightarrow> (None, st)
      | Some (v, k) \<Rightarrow>
          use_vendor w v k txt (characterId options) (passed_options_early options) st) \<and>
   (cache_ok st \<longrightarrow>
      calls (snd (use_vendor w v' k' txt cid opts st)) = calls st @ [Synthesize v' k'] \<and>
      fst (use_vendor w v' k' txt cid opts st) =
        (case (if v' = Groq
               then GroqTTSService_generateTTS (groq_speech w) (length (calls st)) k' txt cid opts
               else client_generateTTS w (length (calls st)) (fst (getInstance v' k' True st))
                      txt cid opts) of
           Inr r \<Rightarrow> Some r
         | Inl e \<Rightarrow> None)) \<and>
   (fst (preferencePhase w txt u options st) = None \<longrightarrow>
      afterOverride w txt u options st =
        useSystemTTS w txt options (snd (preferencePhase w txt u options st))) \<and>
   (\<exists>r st'. afterOverride w txt u options st = (Inr r, st'))"
proof (intro conjI impI)
  show "preferencePhase w txt u options st =
     (case preferred_credential (env w) u of
        None \<Rightarrow> (None, st)
      | Some (v, k) \<Rightarrow> use_vendor w v k txt (characterId options) (passed_options options) st)"
    by (rule preferencePhase_credential)
  show "preferencePhase_early w txt u options st =
     (case preferred_credential_early u of
        None \<Rightarrow> (None, st)
      | Some (v, k) \<Rightarrow>
          use_vendor w v k txt (characterId options) (passed_options_early options) st)"
    by (rule preferencePhase_early_credential)
  show "\<exists>r st'. afterOverride w txt u options st = (Inr r, st')"
    by (rule afterOverride_resolves)
next
  assume "cache_ok st"
  then show "calls (snd (use_vendor w v' k' txt cid opts st)) = calls st @ [Synthesize v' k']"
    by (rule use_vendor_calls)
next
  assume "cache_ok st"
  then show "fst (use_vendor w v' k' txt cid opts st) =
        (case (if v' = Groq
               then GroqTTSService_generateTTS (groq_speech w) (length (calls st)) k' txt cid opts
               else client_generateTTS w (length (calls st)) (fst (getInstance v' k' True st))
                      txt cid opts) of
           Inr r \<Rightarrow> Some r
         | Inl e \<Rightarrow> None)"
    by (rule fst_use_vendor)
next
  assume "fst (preferencePhase w txt u options st) = None"
  then show "afterOverride w txt u options st =
        useSystemTTS w txt options (snd (preferencePhase w txt u options st))"
    by (cases "preferencePhase w txt u options st") (simp add: afterOverride_def)
qed

theorem preference_phase_credential_witness:
  "cache_ok new_manager \<and>
   preferred_credential (env answering_world) prefers_openai_with_keys = Some (OpenAI, js ''sk_user'') \<and>
   calls (snd (preferencePhase answering_world (js ''yo'') prefers_openai_with_keys silk new_manager)) =
     [Synthesize OpenAI (js ''sk_user'')]"
proof -
  note t = preference_phase_credential [of answering_world "js ''yo''" prefers_openai_with_keys
      silk new_manager OpenAI "js ''sk_user''" "characterId silk" "passed_options silk"]
  have p: "preferred_credential (env answering_world) prefers_openai_with_keys =
      Some (OpenAI, js ''sk_user'')"
    by (simp add: preferred_credential_def prefers_openai_with_keys_def no_keys_def or_string_def
        js_def)
  have e: "calls new_manager = []" by (simp add: new_manager_def)
  from t p cache_ok_new e
  have "calls (snd (preferencePhase answering_world (js ''yo'') prefers_openai_with_keys silk
      new_manager)) = [Synthesize OpenAI (js ''sk_user'')]"
    by simp
  with p cache_ok_new show ?thesis by blast
qed

text \<open>
  The claim as stated fails for OpenAI: a user who prefers OpenAI and stores no key, in a
  process that has \<open>OPENAI_API_KEY\<close>, gets no attempt on OpenAI in the preference phase;
  the system chain then reaches Groq first.
\<close>

theorem preferred_openai_ignores_process_key:
  "getUser answering_world (js ''u3'') = Inr (Some prefers_openai_without_key) \<and>
   preferredTtsService prefers_openai_without_key = Some (js ''openai'') \<and>
   OPENAI_API_KEY (env answering_world) = Some (js ''sk_system'') \<and>
   preferencePhase answering_world (js ''yo'') prefers_openai_without_key silk new_manager =
     (None, new_manager) \<and>
   calls (snd (generateTTS answering_world (js ''yo'') (js ''u3'') silk new_manager)) =
     [Synthesize Groq (js ''gsk_system'')]"
  by (simp add: run_defs world_defs prefers_openai_without_key_def
      GroqTTSService_generateTTS_def cleanText_def applyRobotVoiceEffects_def replace_unit_def
      trim_def isWhiteSpace_def isLineTerminator_def js_def)

subsection \<open>No user record\<close>

text \<open>
  Claim C5, as the code has it. When \<open>storage.getUser\<close> finds no user, \<open>generateTTS\<close>
  throws \<open>User not found\<close> inside its \<open>try\<close>, and the outer \<open>catch\<close> returns
  \<open>{audioUrl: "", duration: floor(text.length / 15)}\<close> at once: the manager is as it
  was, so no user-specific path and no vendor of the system chain was attempted. The early
  variant does the same.
\<close>

theorem absent_user_gives_empty_audio:
  assumes "getUser w userId = Inr None"
  shows "generateTTS w txt userId options st =
           (Inr \<lparr>audioUrl = [], duration = length txt div 15\<rparr>, st) \<and>
         generateTTS_early w txt userId options st =
           (Inr \<lparr>audioUrl = [], duration = length txt div 15\<rparr>, st)"
  using assms
  by (simp add: generateTTS_def generateTTS_try_def generateTTS_early_def
      generateTTS_try_early_def emptyAudio_def)

theorem absent_user_gives_empty_audio_witness:
  "getUser answering_world (js ''missing-user'') = Inr None \<and>
   generateTTS answering_world (js ''test text'') (js ''missing-user'') silk new_manager =
     (Inr \<lparr>audioUrl = [], duration = 0\<rparr>, new_manager)"
proof -
  have u: "getUser answering_world (js ''missing-user'') = Inr None"
    by (simp add: answering_world_def js_def)
  from absent_user_gives_empty_audio [OF u, of "js ''test text''" silk new_manager] u
  show ?thesis by (simp add: js_def)
qed

text \<open>
  The claim as stated fails: with no user record the system chain is not entered, although
  it would have produced audio (here from Groq, with the process-wide key).
\<close>

theorem absent_user_skips_system_chain:
  "getUser answering_world (js ''missing-user'') = Inr None \<and>
   fst (useSystemTTS answering_world (js ''test text'') silk new_manager) =
     Inr \<lparr>audioUrl = js ''data:audio/wav;base64,UklGRg=='', duration = 0\<rparr> \<and>
   calls (snd (useSystemTTS answering_world (js ''test text'') silk new_manager)) =
     [Synthesize Groq (js ''gsk_system'')] \<and>
   fst (generateTTS answering_world (js ''test text'') (js ''missing-user'') silk new_manager) =
     Inr \<lparr>audioUrl = [], duration = 0\<rparr> \<and>
   calls (snd (generateTTS answering_world (js ''test text'') (js ''missing-user'') silk new_manager)) = []"
  by (simp add: run_defs world_defs GroqTTSService_generateTTS_def cleanText_def
      applyRobotVoiceEffects_def replace_unit_def trim_def isWhiteSpace_def isLineTerminator_def
      js_def)

subsection \<open>The example of the robotic character\<close>

lemma cleanText_yo: "cleanText (js ''yo'') (js ''cypher'') = js ''[processing] yo [systems_online]''"
  by (simp add: cleanText_def applyRobotVoiceEffects_def replace_unit_def trim_def js_def
      isWhiteSpace_def isLineTerminator_def)

lemma duration_yo: "length (js ''[processing] yo [systems_online]'') div 15 = 2"
  by (simp add: js_def)

text \<open>
  Claim C6, as the code has it. For \<open>generateTTS("yo", "u1", {characterId: "cypher"})\<close>
  where user \<open>u1\<close> exists and stores no Groq key and \<open>GROQ_API_KEY\<close> is set, from every
  state whose caches are in order: the first
  call is to Groq with the process-wide key, and when that call succeeds the result is
  Groq's, its duration estimated from the text sent to the vendor,
  \<open>[processing] yo [systems_online]\<close>, of 32 code units: \<open>floor(32 / 15) = 2\<close>.
\<close>

theorem yo_cypher_duration:
  assumes "getUser w (js ''u1'') = Inr (Some u)" and "\<not> truthy (groqApiKey u)"
    and "GROQ_API_KEY (env w) = Some k" and "k \<noteq> []"
    and "characterId options = js ''cypher''" and "cache_ok st"
  shows
    "(\<exists>more. calls (snd (generateTTS w (js ''yo'') (js ''u1'') options st)) =
               calls st @ Synthesize Groq k # more) \<and>
     (\<forall>audio.
        groq_speech w (length (calls st)) k
          \<lparr>input = js ''[processing] yo [systems_online]'',
           speed = Some (calculateDynamicSpeed (js ''cypher'') (voiceStyle options)
                           (speedMultiplier options))\<rparr> = Inr audio \<longrightarrow>
        fst (generateTTS w (js ''yo'') (js ''u1'') options st) =
          Inr \<lparr>audioUrl = js ''data:audio/wav;base64,'' @ audio, duration = 2\<rparr>)"
proof (intro conjI allI impI)
  have g: "given (or_else (groqApiKey u) (GROQ_API_KEY (env w))) = Some k"
    using assms(2-4) given_None_iff [of "groqApiKey u"] by (simp add: given_or_else)
  from forceCypherGroq_first_call [OF assms(5) g assms(6) assms(1)]
  show "\<exists>more. calls (snd (generateTTS w (js ''yo'') (js ''u1'') options st)) =
               calls st @ Synthesize Groq k # more"
    by (simp add: snd_generateTTS)
  fix audio
  assume a: "groq_speech w (length (calls st)) k
          \<lparr>input = js ''[processing] yo [systems_online]'',
           speed = Some (calculateDynamicSpeed (js ''cypher'') (voiceStyle options)
                           (speedMultiplier options))\<rparr> = Inr audio"
  have "GroqTTSService_generateTTS (groq_speech w) (length (calls st)) k (js ''yo'')
          (js ''cypher'') (passed_options options) =
        Inr \<lparr>audioUrl = js ''data:audio/wav;base64,'' @ audio, duration = 2\<rparr>"
    using a by (simp add: GroqTTSService_generateTTS_def cleanText_yo passed_options_def duration_yo)
  then have "fst (useGroq w k (js ''yo'') options st) =
      Some \<lparr>audioUrl = js ''data:audio/wav;base64,'' @ audio, duration = 2\<rparr>"
    using assms(5) by (simp add: use_vendor_eqs fst_use_vendor [OF assms(6)])
  then show "fst (generateTTS w (js ''yo'') (js ''u1'') options st) =
          Inr \<lparr>audioUrl = js ''data:audio/wav;base64,'' @ audio, duration = 2\<rparr>"
    using g assms(5)
    by (cases "useGroq w k (js ''yo'') options st")
       (simp add: generateTTS_found [OF assms(1)] forceCypherGroq_def)
qed

theorem yo_cypher_duration_witness:
  "getUser answering_world (js ''u1'') = Inr (Some no_keys) \<and> \<not> truthy (groqApiKey no_keys) \<and>
   GROQ_API_KEY (env answering_world) = Some (js ''gsk_system'') \<and> js ''gsk_system'' \<noteq> [] \<and>
   characterId cypher = js ''cypher'' \<and> cache_ok new_manager \<and>
   fst (generateTTS answering_world (js ''yo'') (js ''u1'') cypher new_manager) =
     Inr \<lparr>audioUrl = js ''data:audio/wav;base64,UklGRg=='', duration = 2\<rparr>"
proof -
  have k: "\<not> truthy (groqApiKey no_keys)" by (simp add: no_keys_def)
  have e: "GROQ_API_KEY (env answering_world) = Some (js ''gsk_system'')"
    by (simp add: answering_world_def no_env_def)
  have n: "js ''gsk_system'' \<noteq> []" by (simp add: js_def)
  have c: "characterId cypher = js ''cypher''" by (simp add: cypher_def)
  have a: "groq_speech answering_world now key req = Inr (js ''UklGRg=='')" for now key req
    by (simp add: answering_world_def)
  from yo_cypher_duration [OF getUser_u1 k e n c cache_ok_new] a
  have "fst (generateTTS answering_world (js ''yo'') (js ''u1'') cypher new_manager) =
     Inr \<lparr>audioUrl = js ''data:audio/wav;base64,'' @ js ''UklGRg=='', duration = 2\<rparr>"
    by blast
  then have "fst (generateTTS answering_world (js ''yo'') (js ''u1'') cypher new_manager) =
     Inr \<lparr>audioUrl = js ''data:audio/wav;base64,UklGRg=='', duration = 2\<rparr>"
    by (simp add: js_def)
  with getUser_u1 k e n c cache_ok_new show ?thesis by blast
qed

text \<open>
  The claim as stated fails: on its own example, with Groq answering, the result comes
  from the forced Groq call and its duration is 2, not 0.
\<close>

theorem yo_cypher_duration_is_not_zero:
  "getUser answering_world (js ''u1'') = Inr (Some no_keys) \<and> groqApiKey no_keys = None \<and>
   GROQ_API_KEY (env answering_world) = Some (js ''gsk_system'') \<and>
   calls (snd (generateTTS answering_world (js ''yo'') (js ''u1'') cypher new_manager)) =
     [Synthesize Groq (js ''gsk_system'')] \<and>
   fst (generateTTS answering_world (js ''yo'') (js ''u1'') cypher new_manager) =
     Inr \<lparr>audioUrl = js ''data:audio/wav;base64,UklGRg=='', duration = 2\<rparr> \<and>
   length (js ''yo'') div 15 = 0"
  by (simp add: run_defs world_defs GroqTTSService_generateTTS_def cleanText_def
      applyRobotVoiceEffects_def replace_unit_def trim_def isWhiteSpace_def isLineTerminator_def
      js_def)

subsection \<open>The speed of the Groq client\<close>

lemma characterSpeeds_nonzero: "map_of characterSpeeds c = Some v \<Longrightarrow> v \<noteq> 0"
  by (auto simp: characterSpeeds_def split: if_splits)

lemma styleModifiers_nonzero: "map_of styleModifiers s = Some v \<Longrightarrow> v \<noteq> 0"
  by (auto simp: styleModifiers_def split: if_splits)

lemma baseSpeed_value:
  assumes "c \<notin> set Object_prototype"
  shows "ToNumber (or_value (get_property characterSpeeds c) (JNumber (Fin 1.0))) =
           Fin (baseSpeedForCharacter c)"
proof (cases "map_of characterSpeeds c")
  case None
  with assms show ?thesis by (simp add: get_property_def or_value_def baseSpeedForCharacter_def)
next
  case (Some v)
  with characterSpeeds_nonzero [OF Some] show ?thesis
    by (simp add: get_property_def or_value_def baseSpeedForCharacter_def)
qed

lemma styleModifier_value:
  assumes "or_string s (js ''confident'') \<notin> set Object_prototype"
  shows "ToNumber (or_value (get_property styleModifiers (or_string s (js ''confident'')))
           (JNumber (Fin 1.0))) = Fin (styleModifier s)"
proof (cases "map_of styleModifiers (or_string s (js ''confident''))")
  case None
  with assms show ?thesis by (simp add: get_property_def or_value_def styleModifier_def)
next
  case (Some v)
  with styleModifiers_nonzero [OF Some] show ?thesis
    by (simp add: get_property_def or_value_def styleModifier_def)
qed

text \<open>
  For a character id and a style that are not names inherited from \<open>Object.prototype\<close>, and
  a multiplier that is a number, the speed is the clamped product and lies in
  \<open>[0.5, 2.0]\<close>.
\<close>

lemma calculateDynamicSpeed_clamped:
  assumes "c \<notin> set Object_prototype" and "or_string s (js ''confident'') \<notin> set Object_prototype"
  shows "calculateDynamicSpeed c s None =
           Fin (clamp (baseSpeedForCharacter c * styleModifier s * 1.0) 0.5 2.0)"
    and "calculateDynamicSpeed c s (Some (Fin m)) =
           Fin (clamp (baseSpeedForCharacter c * styleModifier s * m) 0.5 2.0)"
    and "0.5 \<le> clamp x 0.5 2.0 \<and> clamp x 0.5 2.0 \<le> 2.0"
  unfolding calculateDynamicSpeed_def Let_def baseSpeed_value [OF assms(1)]
    styleModifier_value [OF assms(2)]
  by (simp_all add: clamp_def)

lemma calculateDynamicSpeed_examples:
  "calculateDynamicSpeed (js ''cypher'') (Some (js ''aggressive'')) (Some (Fin 3)) = Fin 2"
  "calculateDynamicSpeed (js ''cypher'') None None = Fin 0.75"
  "calculateDynamicSpeed (js ''nobody'') (Some (js ''shouting'')) (Some (Fin 0.1)) = Fin 0.5"
  "calculateDynamicSpeed (js ''silk'') None (Some NaN) = NaN"
  by (simp_all add: calculateDynamicSpeed_def get_property_def characterSpeeds_def
      styleModifiers_def Object_prototype_def or_value_def or_string_def js_def)

text \<open>
  Claim C9 fails on the code for a character id that names a property every object literal
  inherits, such as \<open>constructor\<close>: \<open>characterSpeeds[characterId]\<close> is then a function,
  which is truthy, so the default 1.0 is not taken, and the product and the clamped result
  are \<open>NaN\<close>, outside \<open>[0.5, 2.0]\<close>.
\<close>

theorem calculateDynamicSpeed_constructor:
  "calculateDynamicSpeed (js ''constructor'') None None = NaN \<and>
   calculateDynamicSpeed (js ''constructor'') (Some (js ''confident'')) (Some (Fin 1.0)) = NaN \<and>
   map_of characterSpeeds (js ''constructor'') = None"
  by (simp add: calculateDynamicSpeed_def get_property_def characterSpeeds_def styleModifiers_def
      Object_prototype_def or_value_def or_string_def js_def)

subsection \<open>testUserAPIKey\<close>

lemma testUserAPIKey_rejects:
  assumes "getUser w userId = Inl e"
  shows "testUserAPIKey w userId s st = (Inl e, st)"
    and "testUserAPIKey_early w userId s st = (Inl e, st)"
  using assms by (simp_all add: testUserAPIKey_def testUserAPIKey_early_def)

lemma testUserAPIKey_resolves:
  assumes "\<not> isl (getUser w userId)"
  shows "\<exists>b st'. testUserAPIKey w userId s st = (Inr b, st')"
    and "\<exists>b st'. testUserAPIKey_early w userId s st = (Inr b, st')"
  using assms
  by (auto simp: testUserAPIKey_def testUserAPIKey_early_def
      split: option.splits prod.splits sum.splits)

text \<open>What the \<open>catch\<close> of \<open>testUserAPIKey\<close> makes of the body of its \<open>try\<close>.\<close>

lemma testUserAPIKey_found:
  assumes "getUser w userId = Inr (Some u)"
  shows "fst (testUserAPIKey w userId s st) =
      Inr (case fst (testUserAPIKey_try w u s st) of Inr b \<Rightarrow> b | Inl e \<Rightarrow> False)"
    and "fst (testUserAPIKey_early w userId s st) =
      Inr (case fst (testUserAPIKey_try_early w u s st) of Inr b \<Rightarrow> b | Inl e \<Rightarrow> False)"
  using assms
  by (auto simp: testUserAPIKey_def testUserAPIKey_early_def split: prod.splits sum.splits)

lemma testUserAPIKey_try_no_key:
  assumes "\<not> truthy (stored_key u s)"
  shows "testUserAPIKey_try w u s st = (Inr False, st)"
    and "testUserAPIKey_try_early w u s st = (Inr False, st)"
proof -
  have g: "given (stored_key u s) = None" using assms by (simp add: given_None_iff)
  consider "s = js ''openai''" | "s = js ''groq''" | "s = js ''elevenlabs''" | "s = js ''myshell''"
    | "s \<noteq> js ''openai''" "s \<noteq> js ''groq''" "s \<noteq> js ''elevenlabs''" "s \<noteq> js ''myshell''"
    by blast
  then have "testUserAPIKey_try w u s st = (Inr False, st) \<and>
      testUserAPIKey_try_early w u s st = (Inr False, st)"
  proof cases
    case 1
    with g show ?thesis
      by (simp add: testUserAPIKey_try_def testUserAPIKey_try_early_def stored_key_def
          service_names_distinct service_names_distinct [symmetric])
  next
    case 2
    with g show ?thesis
      by (simp add: testUserAPIKey_try_def testUserAPIKey_try_early_def stored_key_def
          service_names_distinct service_names_distinct [symmetric])
  next
    case 3
    with g show ?thesis
      by (simp add: testUserAPIKey_try_def testUserAPIKey_try_early_def stored_key_def
          service_names_distinct service_names_distinct [symmetric])
  next
    case 4
    with g show ?thesis
      by (simp add: testUserAPIKey_try_def testUserAPIKey_try_early_def stored_key_def
          service_names_distinct service_names_distinct [symmetric])
  next
    case 5
    then show ?thesis
      by (simp add: testUserAPIKey_try_def testUserAPIKey_try_early_def)
  qed
  then show "testUserAPIKey_try w u s st = (Inr False, st)"
    and "testUserAPIKey_try_early w u s st = (Inr False, st)"
    by simp_all
qed

text \<open>
  The test of an OpenAI key gives what its one call gives; the test of another key gives
  what its call gives when the call returns, and \<open>false\<close> or the call's error when it
  throws.
\<close>

lemma testOpenAI_call:
  assumes "cache_ok st"
  shows "fst (testOpenAI w k st) = provider_call w OpenAI k st"
proof (cases "getOpenAIInstance k st")
  case (Pair i st1)
  have i: "i = fst (getInstance OpenAI k True st)"
    and st1: "st1 = snd (getInstance OpenAI k True st)"
    using Pair by (simp_all add: getInstance_def)
  have s: "service i = OpenAI"
    unfolding i using getInstance_fields [OF assms, of OpenAI k True] by simp
  have c: "calls st1 = calls st" unfolding st1 by (rule getInstance_calls)
  show ?thesis
    using s c i
    by (simp add: testOpenAI_def Pair instance_generateTTS_def provider_call_def Let_def
        split: sum.splits)
qed

lemma instance_testConnection_call:
  assumes "cache_ok st" and "v \<noteq> OpenAI" and "getInstance v k True st = (i, st1)"
  shows "(case fst (instance_testConnection w i st1) of Inr b \<Rightarrow> b | Inl e \<Rightarrow> False) =
         (case provider_call w v k st of Inr b \<Rightarrow> b | Inl e \<Rightarrow> False)"
proof -
  have i: "i = fst (getInstance v k True st)" and st1: "st1 = snd (getInstance v k True st)"
    using assms(3) by simp_all
  have s: "service i = v" and a: "apiKey i = k"
    unfolding i using getInstance_fields [OF assms(1), of v k True] by simp_all
  have c: "calls st1 = calls st" unfolding st1 by (rule getInstance_calls)
  show ?thesis
    using s a c i assms(2)
    by (cases v)
       (simp_all add: instance_testConnection_def provider_call_def Let_def
          GroqTTSService_testConnection_def split: sum.splits)
qed

lemma named_vendor_cases:
  assumes "named_vendor s = Some v"
  obtains (openai) "s = js ''openai''" "v = OpenAI"
  | (groq) "s = js ''groq''" "v = Groq"
  | (elevenlabs) "s = js ''elevenlabs''" "v = ElevenLabs"
  | (myshell) "s = js ''myshell''" "v = MyShell"
  using assms by (auto simp: named_vendor_def split: if_splits)

lemma testUserAPIKey_try_call:
  assumes "cache_ok st" and "named_vendor s = Some v" and "given (stored_key u s) = Some k"
  shows "(case fst (testUserAPIKey_try w u s st) of Inr b \<Rightarrow> b | Inl e \<Rightarrow> False) =
         (case provider_call w v k st of Inr b \<Rightarrow> b | Inl e \<Rightarrow> False)"
  using assms(2)
proof (cases rule: named_vendor_cases)
  case openai
  with assms(3) have "testUserAPIKey_try w u s st = testOpenAI w k st"
    by (simp add: testUserAPIKey_try_def stored_key_def)
  with openai testOpenAI_call [OF assms(1), of w k] show ?thesis by simp
next
  case groq
  obtain i st1 where g: "getInstance Groq k True st = (i, st1)"
    by (cases "getInstance Groq k True st")
  with groq assms(3) have "testUserAPIKey_try w u s st = instance_testConnection w i st1"
    by (simp add: testUserAPIKey_try_def stored_key_def getInstance_def
        service_names_distinct service_names_distinct [symmetric])
  with groq instance_testConnection_call [OF assms(1) _ g, of w] show ?thesis by simp
next
  case elevenlabs
  obtain i st1 where g: "getInstance ElevenLabs k True st = (i, st1)"
    by (cases "getInstance ElevenLabs k True st")
  with elevenlabs assms(3) have "testUserAPIKey_try w u s st = instance_testConnection w i st1"
    by (simp add: testUserAPIKey_try_def stored_key_def getInstance_def
        service_names_distinct service_names_distinct [symmetric])
  with elevenlabs instance_testConnection_call [OF assms(1) _ g, of w] show ?thesis by simp
next
  case myshell
  obtain i st1 where g: "getInstance MyShell k True st = (i, st1)"
    by (cases "getInstance MyShell k True st")
  with myshell assms(3) have "testUserAPIKey_try w u s st = instance_testConnection w i st1"
    by (simp add: testUserAPIKey_try_def stored_key_def getInstance_def
        service_names_distinct service_names_distinct [symmetric])
  with myshell instance_testConnection_call [OF assms(1) _ g, of w] show ?thesis by simp
qed

lemma testUserAPIKey_try_early_call:
  assumes "cache_ok st" and "named_vendor s = Some v" and "given (stored_key u s) = Some k"
    and "v = OpenAI \<or> v = Groq"
  shows "(case fst (testUserAPIKey_try_early w u s st) of Inr b \<Rightarrow> b | Inl e \<Rightarrow> False) =
         (case provider_call w v k st of Inr b \<Rightarrow> b | Inl e \<Rightarrow> False)"
  using assms(2)
proof (cases rule: named_vendor_cases)
  case openai
  with assms(3) have "testUserAPIKey_try_early w u s st = testOpenAI w k st"
    by (simp add: testUserAPIKey_try_early_def stored_key_def)
  with openai testOpenAI_call [OF assms(1), of w k] show ?thesis by simp
next
  case groq
  obtain i st1 where g: "getInstance Groq k True st = (i, st1)"
    by (cases "getInstance Groq k True st")
  with groq assms(3) have "testUserAPIKey_try_early w u s st = instance_testConnection w i st1"
    by (simp add: testUserAPIKey_try_early_def stored_key_def getInstance_def
        service_names_distinct service_names_distinct [symmetric])
  with groq instance_testConnection_call [OF assms(1) _ g, of w] show ?thesis by simp
next
  case elevenlabs
  with assms(4) show ?thesis by simp
next
  case myshell
  with assms(4) show ?thesis by simp
qed

lemma testUserAPIKey_call:
  assumes "cache_ok st" and "getUser w userId = Inr (Some u)" and "named_vendor s = Some v"
    and "stored_key u s = Some k" and "k \<noteq> []"
  shows "fst (testUserAPIKey w userId s st) =
      Inr (case provider_call w v k st of Inr b \<Rightarrow> b | Inl e \<Rightarrow> False)"
    and "v = OpenAI \<or> v = Groq \<Longrightarrow> fst (testUserAPIKey_early w userId s st) =
      Inr (case provider_call w v k st of Inr b \<Rightarrow> b | Inl e \<Rightarrow> False)"
proof -
  from assms(4,5) have g: "given (stored_key u s) = Some k" by (simp add: given_Some_iff)
  show "fst (testUserAPIKey w userId s st) =
      Inr (case provider_call w v k st of Inr b \<Rightarrow> b | Inl e \<Rightarrow> False)"
    using testUserAPIKey_found(1) [OF assms(2), of s st]
      testUserAPIKey_try_call [OF assms(1,3) g, of w]
    by simp
  show "fst (testUserAPIKey_early w userId s st) =
      Inr (case provider_call w v k st of Inr b \<Rightarrow> b | Inl e \<Rightarrow> False)"
    if "v = OpenAI \<or> v = Groq"
    using testUserAPIKey_found(2) [OF assms(2), of s st]
      testUserAPIKey_try_early_call [OF assms(1,3) g that, of w]
    by simp
qed

text \<open>
  Claim C10, as the code has it. For every user id and service name, in both variants:
  when the lookup of the user resolves, \<open>testUserAPIKey\<close> returns a boolean and does not
  throw. It returns \<open>false\<close>, leaving the manager as it was, when the user record is absent
  and when the user stores no truthy key for the named service, whatever keys the process
  has. When the user stores a truthy key for the named service, it returns \<open>false\<close>
  whenever the one call it makes to the provider throws, whatever any other call would do,
  and what that call gives when it returns (in the early variant for OpenAI and Groq, the
  services it takes). When the lookup of the user rejects, \<open>testUserAPIKey\<close> rejects with
  the same error and leaves the manager as it was: the lookup is before the \<open>try\<close>.
\<close>

theorem testUserAPIKey_answers:
  "(getUser w userId = Inl e \<longrightarrow>
      testUserAPIKey w userId service_name st = (Inl e, st) \<and>
      testUserAPIKey_early w userId service_name st = (Inl e, st)) \<and>
   (\<not> isl (getUser w userId) \<longrightarrow>
      (\<exists>b st'. testUserAPIKey w userId service_name st = (Inr b, st')) \<and>
      (\<exists>b st'. testUserAPIKey_early w userId service_name st = (Inr b, st'))) \<and>
   (getUser w userId = Inr None \<or>
    (\<exists>u. getUser w userId = Inr (Some u) \<and> \<not> truthy (stored_key u service_name)) \<longrightarrow>
      testUserAPIKey w userId service_name st = (Inr False, st) \<and>
      testUserAPIKey_early w userId service_name st = (Inr False, st)) \<and>
   (cache_ok st \<and> getUser w userId = Inr (Some u) \<and> named_vendor service_name = Some v \<and>
    stored_key u service_name = Some k \<and> k \<noteq> [] \<longrightarrow>
      (isl (provider_call w v k st) \<longrightarrow>
         fst (testUserAPIKey w userId service_name st) = Inr False \<and>
         (v = OpenAI \<or> v = Groq \<longrightarrow>
            fst (testUserAPIKey_early w userId service_name st) = Inr False)) \<and>
      (provider_call w v k st = Inr b \<longrightarrow>
         fst (testUserAPIKey w userId service_name st) = Inr b \<and>
         (v = OpenAI \<or> v = Groq \<longrightarrow>
            fst (testUserAPIKey_early w userId service_name st) = Inr b)))"
proof (intro conjI impI)
  assume "getUser w userId = Inl e"
  then show "testUserAPIKey w userId service_name st = (Inl e, st)"
    and "testUserAPIKey_early w userId service_name st = (Inl e, st)"
    by (rule testUserAPIKey_rejects)+
next
  assume "\<not> isl (getUser w userId)"
  then show "\<exists>b st'. testUserAPIKey w userId service_name st = (Inr b, st')"
    and "\<exists>b st'. testUserAPIKey_early w userId service_name st = (Inr b, st')"
    by (rule testUserAPIKey_resolves)+
next
  assume a: "getUser w userId = Inr None \<or>
    (\<exists>u. getUser w userId = Inr (Some u) \<and> \<not> truthy (stored_key u service_name))"
  then show "testUserAPIKey w userId service_name st = (Inr False, st)"
    by (auto simp: testUserAPIKey_def testUserAPIKey_try_no_key)
  from a show "testUserAPIKey_early w userId service_name st = (Inr False, st)"
    by (auto simp: testUserAPIKey_early_def testUserAPIKey_try_no_key)
next
  assume a: "cache_ok st \<and> getUser w userId = Inr (Some u) \<and>
    named_vendor service_name = Some v \<and> stored_key u service_name = Some k \<and> k \<noteq> []"
  then have ok: "cache_ok st" and found: "getUser w userId = Inr (Some u)"
    and named: "named_vendor service_name = Some v"
    and stored: "stored_key u service_name = Some k" and truthy: "k \<noteq> []"
    by blast+
  have later: "fst (testUserAPIKey w userId service_name st) =
      Inr (case provider_call w v k st of Inr b \<Rightarrow> b | Inl e \<Rightarrow> False)"
    by (rule testUserAPIKey_call(1) [OF ok found named stored truthy])
  have early: "fst (testUserAPIKey_early w userId service_name st) =
      Inr (case provider_call w v k st of Inr b \<Rightarrow> b | Inl e \<Rightarrow> False)"
    if "v = OpenAI \<or> v = Groq"
    by (rule testUserAPIKey_call(2) [OF ok found named stored truthy that])
  {
    assume t: "isl (provider_call w v k st)"
    with later show "fst (testUserAPIKey w userId service_name st) = Inr False"
      by (cases "provider_call w v k st") simp_all
    assume "v = OpenAI \<or> v = Groq"
    from early [OF this] t show "fst (testUserAPIKey_early w userId service_name st) = Inr False"
      by (cases "provider_call w v k st") simp_all
  }
  {
    assume t: "provider_call w v k st = Inr b"
    with later show "fst (testUserAPIKey w userId service_name st) = Inr b" by simp
    assume "v = OpenAI \<or> v = Groq"
    from early [OF this] t show "fst (testUserAPIKey_early w userId service_name st) = Inr b"
      by simp
  }
qed

theorem testUserAPIKey_answers_witness:
  "getUser storage_down_world (js ''u2'') = Inl (Error (js ''connection refused'')) \<and>
   testUserAPIKey storage_down_world (js ''u2'') (js ''groq'') new_manager =
     (Inl (Error (js ''connection refused'')), new_manager) \<and>
   getUser answering_world (js ''u3'') = Inr (Some prefers_openai_without_key) \<and>
   \<not> truthy (stored_key prefers_openai_without_key (js ''openai'')) \<and>
   OPENAI_API_KEY (env answering_world) = Some (js ''sk_system'') \<and>
   testUserAPIKey answering_world (js ''u3'') (js ''openai'') new_manager = (Inr False, new_manager) \<and>
   cache_ok new_manager \<and>
   getUser groq_down_world (js ''u2'') = Inr (Some prefers_openai_with_keys) \<and>
   named_vendor (js ''groq'') = Some Groq \<and>
   stored_key prefers_openai_with_keys (js ''groq'') = Some (js ''gsk_user'') \<and>
   isl (provider_call groq_down_world Groq (js ''gsk_user'') new_manager) \<and>
   \<not> every_call_throws groq_down_world \<and>
   fst (testUserAPIKey groq_down_world (js ''u2'') (js ''groq'') new_manager) = Inr False \<and>
   fst (testUserAPIKey_early groq_down_world (js ''u2'') (js ''groq'') new_manager) = Inr False \<and>
   named_vendor (js ''openai'') = Some OpenAI \<and>
   stored_key prefers_openai_with_keys (js ''openai'') = Some (js ''sk_user'') \<and>
   provider_call groq_down_world OpenAI (js ''sk_user'') new_manager = Inr True \<and>
   fst (testUserAPIKey groq_down_world (js ''u2'') (js ''openai'') new_manager) = Inr True \<and>
   fst (testUserAPIKey_early groq_down_world (js ''u2'') (js ''openai'') new_manager) = Inr True"
proof -
  have d: "getUser storage_down_world (js ''u2'') = Inl (Error (js ''connection refused''))"
    by (simp add: storage_down_world_def)
  from testUserAPIKey_answers [where w = storage_down_world and userId = "js ''u2''"
      and service_name = "js ''groq''" and st = new_manager
      and e = "Error (js ''connection refused'')"] d
  have zero: "testUserAPIKey storage_down_world (js ''u2'') (js ''groq'') new_manager =
      (Inl (Error (js ''connection refused'')), new_manager)"
    by blast
  have u: "getUser answering_world (js ''u3'') = Inr (Some prefers_openai_without_key)"
    by (simp add: answering_world_def prefers_openai_without_key_def js_def)
  have k: "\<not> truthy (stored_key prefers_openai_without_key (js ''openai''))"
    by (simp add: stored_key_def prefers_openai_without_key_def no_keys_def)
  have e: "OPENAI_API_KEY (env answering_world) = Some (js ''sk_system'')"
    by (simp add: answering_world_def no_env_def)
  from testUserAPIKey_answers [where w = answering_world and userId = "js ''u3''"
      and service_name = "js ''openai''" and st = new_manager] u k
  have one: "testUserAPIKey answering_world (js ''u3'') (js ''openai'') new_manager =
      (Inr False, new_manager)"
    by blast
  have u2: "getUser groq_down_world (js ''u2'') = Inr (Some prefers_openai_with_keys)"
    by (simp add: groq_down_world_def answering_world_def js_def)
  have ng: "named_vendor (js ''groq'') = Some Groq"
    and no: "named_vendor (js ''openai'') = Some OpenAI"
    by (simp_all add: named_vendor_def js_def)
  have kg: "stored_key prefers_openai_with_keys (js ''groq'') = Some (js ''gsk_user'')"
    and ko: "stored_key prefers_openai_with_keys (js ''openai'') = Some (js ''sk_user'')"
    by (simp_all add: stored_key_def prefers_openai_with_keys_def no_keys_def js_def)
  have n: "js ''gsk_user'' \<noteq> []" "js ''sk_user'' \<noteq> []" by (simp_all add: js_def)
  have pg: "isl (provider_call groq_down_world Groq (js ''gsk_user'') new_manager)"
    by (simp add: provider_call_def groq_down_world_def answering_world_def)
  have po: "provider_call groq_down_world OpenAI (js ''sk_user'') new_manager = Inr True"
    by (simp add: provider_call_def groq_down_world_def answering_world_def js_def)
  have ne: "\<not> every_call_throws groq_down_world"
    by (simp add: every_call_throws_def groq_down_world_def answering_world_def)
  from testUserAPIKey_answers [where w = groq_down_world and userId = "js ''u2''"
      and service_name = "js ''groq''" and st = new_manager and u = prefers_openai_with_keys
      and v = Groq and k = "js ''gsk_user''"] cache_ok_new u2 ng kg n pg
  have two: "fst (testUserAPIKey groq_down_world (js ''u2'') (js ''groq'') new_manager) = Inr False"
    and three: "fst (testUserAPIKey_early groq_down_world (js ''u2'') (js ''groq'') new_manager) =
      Inr False"
    by blast+
  from testUserAPIKey_answers [where w = groq_down_world and userId = "js ''u2''"
      and service_name = "js ''openai''" and st = new_manager and u = prefers_openai_with_keys
      and v = OpenAI and k = "js ''sk_user''" and b = True] cache_ok_new u2 no ko n po
  have four: "fst (testUserAPIKey groq_down_world (js ''u2'') (js ''openai'') new_manager) = Inr True"
    and five: "fst (testUserAPIKey_early groq_down_world (js ''u2'') (js ''openai'') new_manager) =
      Inr True"
    by blast+
  from d zero u k e one cache_ok_new u2 ng kg pg ne two three no ko po four five
  show ?thesis by blast
qed

text \<open>
  Claim C10 as it is written fails: \<open>testUserAPIKey\<close> throws when the lookup of the user
  rejects. With a storage that is down, the test of the Groq key of user \<open>u2\<close> on a new
  manager rejects with the error of the storage, in both variants, and no call is made.
\<close>

theorem testUserAPIKey_rejects_with_storage:
  "getUser storage_down_world (js ''u2'') = Inl (Error (js ''connection refused'')) \<and>
   testUserAPIKey storage_down_world (js ''u2'') (js ''groq'') new_manager =
     (Inl (Error (js ''connection refused'')), new_manager) \<and>
   testUserAPIKey_early storage_down_world (js ''u2'') (js ''groq'') new_manager =
     (Inl (Error (js ''connection refused'')), new_manager)"
  by (simp add: storage_down_world_def testUserAPIKey_def testUserAPIKey_early_def)

end
